(* ===== verification/Prelude.thy ===== *)
theory Prelude
  imports Main "HOL-Library.Word" "HOL-Library.AList" "HOL-Library.Multiset"
begin

text \<open>
  Shared vocabulary of the development: the machine integers of the Go code, Go maps
  (finite association lists with distinct keys; the list order stands for the
  unspecified iteration order), error values, times and durations, and the generic
  lemmas on words, maps and folds that several components use.
\<close>

unbundle bit_operations_syntax

section \<open>Types\<close>

type_synonym u8 = "8 word"
type_synonym u16 = "16 word"
type_synonym u32 = "32 word"
type_synonym u64 = "64 word"

text \<open>A Go \<open>error\<close> value that is not nil, by its message.\<close>

type_synonym go_error = string

text \<open>The result of a function returning \<open>(T, error)\<close>: the error, or the value.\<close>

type_synonym 'a go_result = "go_error + 'a"

text \<open>A function returning just \<open>error\<close>: \<open>None\<close> is nil.\<close>

type_synonym err_opt = "go_error option"

section \<open>Actions\<close>

text \<open>\<open>if err := a; err != nil { return wrap(err) }\<close> followed by \<open>b\<close>.\<close>

type_synonym 's action = "'s \<Rightarrow> err_opt \<times> 's"

definition and_then :: "'s action \<Rightarrow> (go_error \<Rightarrow> go_error) \<Rightarrow> 's action \<Rightarrow> 's action" where
  "and_then a wrap b s = (case a s of (Some e, s') \<Rightarrow> (Some (wrap e), s') | (None, s') \<Rightarrow> b s')"

lemma and_then_None:
  "and_then a wrap b s = (None, s') \<longleftrightarrow> (\<exists>s1. a s = (None, s1) \<and> b s1 = (None, s'))"
  by (auto simp: and_then_def split: prod.splits option.splits)

section \<open>Collections of facts\<close>

named_theorems mark_simps \<open>bit arithmetic of marks\<close>
named_theorems map_simps \<open>lookups in Go maps after an update or a deletion\<close>

section \<open>Go maps\<close>

type_synonym ('k, 'v) gomap = "('k \<times> 'v) list"

definition gm_ok :: "('k, 'v) gomap \<Rightarrow> bool" where
  "gm_ok m \<longleftrightarrow> distinct (map fst m)"

abbreviation gm_get :: "('k, 'v) gomap \<Rightarrow> 'k \<Rightarrow> 'v option" where
  "gm_get \<equiv> map_of"

abbreviation gm_set :: "'k \<Rightarrow> 'v \<Rightarrow> ('k, 'v) gomap \<Rightarrow> ('k, 'v) gomap" where
  "gm_set \<equiv> AList.update"

abbreviation gm_delete :: "'k \<Rightarrow> ('k, 'v) gomap \<Rightarrow> ('k, 'v) gomap" where
  "gm_delete \<equiv> AList.delete"

text \<open>Deleting every entry a predicate accepts, as \<open>maps.DeleteFunc\<close> and a loop of
  \<open>delete\<close> calls over the map's own keys do.\<close>

definition gm_delete_if :: "('k \<Rightarrow> 'v \<Rightarrow> bool) \<Rightarrow> ('k, 'v) gomap \<Rightarrow> ('k, 'v) gomap" where
  "gm_delete_if P m = filter (\<lambda>(k, v). \<not> P k v) m"

lemma gm_get_set [simp, map_simps]:
  "gm_get (gm_set k v m) k' = (if k' = k then Some v else gm_get m k')"
  by (simp add: update_conv')

lemma gm_get_delete [simp, map_simps]:
  "gm_get (gm_delete k m) k' = (if k' = k then None else gm_get m k')"
  by (simp add: delete_conv')

lemma gm_ok_Nil [simp, intro]: "gm_ok []"
  by (simp add: gm_ok_def)

lemma gm_ok_set [simp, intro]: "gm_ok m \<Longrightarrow> gm_ok (gm_set k v m)"
  unfolding gm_ok_def by (rule distinct_update)

lemma gm_ok_delete [simp, intro]: "gm_ok m \<Longrightarrow> gm_ok (gm_delete k m)"
  unfolding gm_ok_def by (rule distinct_delete)

lemma gm_ok_delete_if [simp, intro]: "gm_ok m \<Longrightarrow> gm_ok (gm_delete_if P m)"
  unfolding gm_ok_def gm_delete_if_def by (induction m) auto

lemma gm_get_in_set: "gm_ok m \<Longrightarrow> gm_get m k = Some v \<longleftrightarrow> (k, v) \<in> set m"
  unfolding gm_ok_def by (rule map_of_eq_Some_iff)

lemma gm_get_delete_if [map_simps]:
  assumes "gm_ok m"
  shows "gm_get (gm_delete_if P m) k =
    (case gm_get m k of None \<Rightarrow> None | Some v \<Rightarrow> if P k v then None else Some v)"
  using assms unfolding gm_ok_def gm_delete_if_def
  by (induction m) (auto split: option.splits simp: map_of_eq_None_iff)

lemma set_gm_delete_if: "set (gm_delete_if P m) = {(k, v) \<in> set m. \<not> P k v}"
  by (auto simp: gm_delete_if_def)

section \<open>Times and durations\<close>

text \<open>
  A \<open>time.Time\<close> is the number of nanoseconds since Go's zero time (so a zero
  \<open>time.Time\<close> is \<open>0\<close>) and a \<open>time.Duration\<close> a number of nanoseconds in the
  range of \<open>int64\<close>. \<open>Time.Sub\<close> saturates at the ends of that range.
\<close>

type_synonym time = int
type_synonym duration = int

definition max_duration :: duration where "max_duration = 2 ^ 63 - 1"
definition min_duration :: duration where "min_duration = - (2 ^ 63)"

definition time_Sub :: "time \<Rightarrow> time \<Rightarrow> duration" where
  "time_Sub t u = max min_duration (min max_duration (t - u))"

abbreviation time_Second :: duration where "time_Second \<equiv> 1000000000"
abbreviation time_Minute :: duration where "time_Minute \<equiv> 60 * time_Second"

text \<open>Saturation never changes a comparison with a duration.\<close>

lemma time_Sub_less_iff:
  "min_duration < d \<Longrightarrow> d \<le> max_duration \<Longrightarrow> time_Sub t u < d \<longleftrightarrow> t - u < d"
  by (auto simp: time_Sub_def min_def max_def)

section \<open>Words\<close>

lemma unat_lt2p16 [simp]: "unat (w :: u16) < 65536"
  using unsigned_less [of w] by simp

lemma unat_lt2p32 [simp]: "unat (w :: u32) < 4294967296"
  using unsigned_less [of w] by simp

lemma unat_lt2p64 [simp]: "unat (w :: u64) < 18446744073709551616"
  using unsigned_less [of w] by simp

lemma unat_u64_of_u32 [simp]: "unat (ucast (w :: u32) :: u64) = unat w"
proof -
  have "unat w < 18446744073709551616" using unat_lt2p32 [of w] by linarith
  then show ?thesis by (simp add: unsigned_ucast_eq take_bit_eq_mod)
qed

end
