(* ===== verification/Mark.thy ===== *)
theory Mark
  imports Prelude
begin

text \<open>
  Package \<open>internal/mark\<close>: a user's packet mark is \<open>(queue+1) << 16 | minor\<close>, both
  taken from the 64-bit FNV-1a hash of the email. \<open>For\<close> computes it, \<open>Join\<close> and
  \<open>Split\<close> pack and unpack it.
\<close>

section \<open>Definitions\<close>

definition MinMinor :: nat where "MinMinor = 2"
definition MaxQueues :: int where "MaxQueues = 255"
definition QueueMask :: u32 where "QueueMask = 0xff0000"
definition minorsPerQueue :: nat where "minorsPerQueue = 0x10000 - MinMinor"

text \<open>\<open>hash/fnv\<close>'s New64a: offset basis, then xor and multiply for each byte.\<close>

definition fnv_offset64 :: u64 where "fnv_offset64 = 14695981039346656037"
definition fnv_prime64 :: u64 where "fnv_prime64 = 1099511628211"

fun fnv1a64 :: "u64 \<Rightarrow> string \<Rightarrow> u64" where
  "fnv1a64 h [] = h"
| "fnv1a64 h (c # cs) = fnv1a64 ((h XOR of_char c) * fnv_prime64) cs"

definition Join :: "u32 \<Rightarrow> u32 \<Rightarrow> u32" where
  "Join major minor = push_bit 16 major OR minor"

definition Split :: "u32 \<Rightarrow> int \<Rightarrow> u32 \<times> u32 \<times> bool" where
  "Split m queues =
     (let major = drop_bit 16 m; minor = m AND 0xffff
      in (major, minor, 1 \<le> major \<and> major \<le> word_of_int queues \<and> of_nat MinMinor \<le> minor))"

text \<open>\<open>For\<close> on a given hash value; \<open>None\<close> is the run-time panic of a division by
  \<open>uint64(queues) = 0\<close>.\<close>

definition For :: "string \<Rightarrow> int \<Rightarrow> u32 option" where
  "For email queues =
     (let sum = fnv1a64 fnv_offset64 email; n = (word_of_int queues :: u64) in
      if n = 0 then None
      else let q = sum mod n;
               minor = of_nat MinMinor + (sum div n) mod of_nat minorsPerQueue
           in Some (Join (ucast (q + 1)) (ucast minor)))"

section \<open>Bit arithmetic\<close>

lemma base65536_inj:
  fixes a b a' b' :: nat
  assumes "a * 65536 + b = a' * 65536 + b'" "b < 65536" "b' < 65536"
  shows "a = a' \<and> b = b'"
proof -
  have "(a * 65536 + b) div 65536 = (a' * 65536 + b') div 65536"
    and "(a * 65536 + b) mod 65536 = (a' * 65536 + b') mod 65536"
    using assms(1) by simp_all
  then show ?thesis using assms(2,3) by simp
qed

lemma u32_and_ffff: "(m::u32) AND 0xffff = take_bit 16 m"
proof -
  have "(0xffff::u32) = mask 16" by (simp add: mask_eq_exp_minus_1)
  then show ?thesis by (simp add: take_bit_eq_mask)
qed

lemma unat_and_ffff [mark_simps]: "unat ((m::u32) AND 0xffff) = unat m mod 65536"
  unfolding u32_and_ffff by (simp add: take_bit_eq_mod unat_mod)

lemma unat_shift16 [mark_simps]: "unat (drop_bit 16 (m::u32)) = unat m div 65536"
  by (simp add: unat_div drop_bit_eq_div)

lemma unat_Join: 
  assumes "unat minor < 65536" "unat major < 65536" 
  shows "unat (Join major minor) = unat major * 65536 + unat minor"
proof -
  have m: "take_bit 16 minor = minor"
    by (rule unsigned_word_eqI [where 'a = nat])
       (use assms(1) in \<open>simp add: unat_mod take_bit_eq_mod\<close>)
  have "push_bit 16 major OR minor = push_bit 16 major + minor"
    by (rule disjunctive_add [symmetric]) (subst m [symmetric], auto simp: bit_simps)
  moreover have "unat (push_bit 16 major + minor) = unat major * 65536 + unat minor"
    using assms by (simp add: unat_word_ariths unsigned_push_bit_eq push_bit_eq_mult take_bit_eq_mod)
  ultimately show ?thesis by (simp add: Join_def)
qed

definition user_mark :: "int \<Rightarrow> u32 \<Rightarrow> bool" where
  "user_mark queues m = snd (snd (Split m queues))"

lemma Split_eq: "Split m queues = (drop_bit 16 m, m AND 0xffff, user_mark queues m)"
  by (simp add: Split_def user_mark_def Let_def)

lemma unat_word_of_int: "0 \<le> q \<Longrightarrow> q < 2 ^ 32 \<Longrightarrow> unat (word_of_int q :: u32) = nat q"
  by (simp add: unsigned_of_int take_bit_int_eq_self)

lemma user_mark_iff:
  assumes "0 \<le> queues" "queues < 2 ^ 32"
  shows "user_mark queues m \<longleftrightarrow> 1 \<le> unat m div 65536 \<and> int (unat m div 65536) \<le> queues \<and> 2 \<le> unat m mod 65536"
  using assms
  by (auto simp: user_mark_def Split_def Let_def word_le_nat_alt unat_shift16 unat_and_ffff MinMinor_def
     unat_word_of_int)

lemma Join_of_Split: "Join (drop_bit 16 m) (m AND 0xffff) = m"
  by (rule unsigned_word_eqI [where 'a = nat])
     (simp add: unat_Join unat_and_ffff unat_shift16  less_mult_imp_div_less)

lemma Split_of_Join:
  assumes "unat minor < 65536" "unat major < 65536"
  shows "drop_bit 16 (Join major minor) = major" "Join major minor AND 0xffff = minor"
  by (rule unsigned_word_eqI [where 'a = nat], use assms in \<open>simp add: unat_Join unat_and_ffff unat_shift16\<close>)+

definition hash_mark :: "u64 \<Rightarrow> nat \<Rightarrow> nat" where
  "hash_mark h n = (unat h mod n + 1) * 65536 + (2 + unat h div n mod 65534)"

lemma For_unat:
  assumes "1 \<le> queues" "queues \<le> MaxQueues"
  obtains m where "For email queues = Some m"
    "unat m = hash_mark (fnv1a64 fnv_offset64 email) (nat queues)"
proof -
  define s where "s = fnv1a64 fnv_offset64 email"
  define n where "n = (word_of_int queues :: u64)"
  have n: "unat n = nat queues"
    using assms by (simp add: n_def MaxQueues_def unsigned_of_int take_bit_int_eq_self)
  with assms(1) have n0: "n \<noteq> 0" by auto
  define q where "q = unat s mod nat queues"
  define k where "k = unat s div nat queues mod 65534"
  have "q < nat queues" using assms by (simp add: q_def)
  then have q: "q < 255" using assms by (simp add: MaxQueues_def)
  have k: "k < 65534" by (simp add: k_def)
  have 1: "unat (ucast (s mod n + 1) :: u32) = q + 1"
    using q n by (simp add: unsigned_ucast_eq unat_word_ariths take_bit_eq_mod q_def)
  have "unat ((s div n) mod of_nat minorsPerQueue) = k"
    by (simp add: unat_mod unat_div n k_def minorsPerQueue_def MinMinor_def)
  then have 2: "unat (ucast (of_nat MinMinor + (s div n) mod of_nat minorsPerQueue) :: u32) = 2 + k"
    using k by (simp add: unsigned_ucast_eq unat_word_ariths(1) take_bit_eq_mod MinMinor_def)
  show ?thesis
  proof (rule that)
    show "For email queues = Some (Join (ucast (s mod n + 1)) (ucast (of_nat MinMinor + (s div n) mod of_nat minorsPerQueue)))"
      using n0 by (simp add: For_def Let_def s_def n_def)
  qed (use q k in \<open>simp add: unat_Join 1 2 hash_mark_def s_def [symmetric] q_def [symmetric] k_def [symmetric]\<close>)
qed

lemma finite_user_marks:
  assumes "0 \<le> queues" "queues < 65536"
  shows "card {m. user_mark queues m} = nat queues * 65534"
proof -
  let ?A = "{1..nat queues} \<times> {2..65535::nat}"
  let ?f = "\<lambda>(a, b). of_nat (a * 65536 + b) :: u32"
  have u: "unat (of_nat (a * 65536 + b) :: u32) = a * 65536 + b" if "(a, b) \<in> ?A" for a b
    using that assms by (subst unsigned_of_nat) (auto simp: take_bit_eq_mod)
  have "inj_on ?f ?A"
  proof (rule inj_onI)
    fix x y assume 1: "x \<in> ?A" "y \<in> ?A" and eq: "?f x = ?f y"
    obtain a b a' b' where xy: "x = (a, b)" "y = (a', b')" by fastforce
    have "a * 65536 + b = a' * 65536 + b'"
      using 1 eq u [of a b] u [of a' b'] unfolding xy by auto
    with 1 show "x = y" unfolding xy by (auto dest: base65536_inj)
  qed
  moreover have "?f ` ?A = {m. user_mark queues m}"
  proof (intro set_eqI iffI)
    fix m assume "m \<in> ?f ` ?A"
    then show "m \<in> {m. user_mark queues m}"
      using u assms by (auto simp: user_mark_iff)
  next
    fix m
    have e: "?f (unat m div 65536, unat m mod 65536) = m"
      by (simp del: of_nat_add of_nat_mult)
    assume "m \<in> {m. user_mark queues m}"
    then have "(unat m div 65536, unat m mod 65536) \<in> ?A"
      using assms by (auto simp: user_mark_iff)
    then show "m \<in> ?f ` ?A" by (rule image_eqI [where f = ?f, OF e [symmetric]])
  qed
  ultimately have "card {m. user_mark queues m} = card ?A" using card_image by fastforce
  then show ?thesis by simp
qed

lemma hash_mark_parts:
  "hash_mark h n div 65536 = unat h mod n + 1" "hash_mark h n mod 65536 = 2 + unat h div n mod 65534"
proof -
  have "unat h div n mod 65534 < 65534" by simp
  then have k: "2 + unat h div n mod 65534 < 65536" by linarith
  show "hash_mark h n div 65536 = unat h mod n + 1" "hash_mark h n mod 65536 = 2 + unat h div n mod 65534"
    unfolding hash_mark_def using k by (simp_all only: div_mult_self3 mod_mult_self3 div_less mod_less)
qed

lemma hash_mark_ok:
  assumes "1 \<le> queues" "queues \<le> 255" "unat m = hash_mark h (nat queues)"
  shows "user_mark queues m"
proof -
  have "unat h mod nat queues < nat queues" using assms(1) by simp
  then have "int (unat h mod nat queues) < queues" by linarith
  then show ?thesis using assms by (simp add: user_mark_iff hash_mark_parts)
qed

lemma For_user_mark:
  assumes "1 \<le> queues" "queues \<le> MaxQueues"
  obtains m where "For email queues = Some m" "user_mark queues m" "m \<noteq> 0"
proof -
  obtain m where m: "For email queues = Some m" "unat m = hash_mark (fnv1a64 fnv_offset64 email) (nat queues)"
    by (rule For_unat [OF assms])
  have "0 < unat m" unfolding m(2) by (simp add: hash_mark_def)
  then have "m \<noteq> 0" by auto
  with that m hash_mark_ok [OF assms(1) _ m(2)] assms(2) show ?thesis by (simp add: MaxQueues_def)
qed

section \<open>Properties\<close>

text \<open>
  C4. For every email and every queue count the service can run with (1 to 255), \<open>For\<close>
  returns a mark (no division by zero), and \<open>Split\<close> accepts that mark as a user mark:
  its queue field is between 1 and the queue count and its minor is at least 2, so it never
  names a queue's default class.
\<close>

theorem For_is_user_mark:
  assumes "1 \<le> queues" "queues \<le> MaxQueues"
  shows "\<exists>m major minor. For email queues = Some m \<and> Split m queues = (major, minor, True)
    \<and> int (unat major) \<le> queues \<and> 1 \<le> unat major \<and> 2 \<le> unat minor \<and> unat minor \<le> 65535"
proof -
  obtain m where m: "For email queues = Some m"
      "unat m = hash_mark (fnv1a64 fnv_offset64 email) (nat queues)"
    using assms by (rule For_unat)
  then have "user_mark queues m" using assms by (auto intro: hash_mark_ok simp: MaxQueues_def)
  with m(1) assms show ?thesis
    by (intro exI [of _ m] exI [of _ "drop_bit 16 m"] exI [of _ "m AND 0xffff"])
       (auto simp: Split_eq user_mark_iff MaxQueues_def mark_simps)
qed

theorem For_is_user_mark_witness:
  "\<exists>m major minor. For ''alice@example.com'' 48 = Some m \<and> Split m 48 = (major, minor, True)
    \<and> int (unat major) \<le> 48 \<and> 1 \<le> unat major \<and> 2 \<le> unat minor \<and> unat minor \<le> 65535"
  using For_is_user_mark [of 48 "''alice@example.com''"] by (simp add: MaxQueues_def)

text \<open>
  C28. \<open>Join\<close> and \<open>Split\<close> are inverse: splitting a joined major and minor gives them back,
  for every 16-bit major and minor, and joining the two halves \<open>Split\<close> returns gives the mark
  back, whatever the mark and whether or not \<open>Split\<close> accepts it.
\<close>

theorem Join_Split_inverse:
  assumes "unat major < 65536" "unat minor < 65536"
  shows "(\<exists>ok. Split (Join major minor) queues = (major, minor, ok)) \<and>
     (case Split m queues of (M, n, _) \<Rightarrow> Join M n = m)"
  using assms by (simp add: Split_eq Split_of_Join Join_of_Split)

theorem Join_Split_inverse_witness:
  "(\<exists>ok. Split (Join 0x17 0x1909) 48 = (0x17, 0x1909, ok)) \<and>
     (case Split 0x171909 48 of (M, n, _) \<Rightarrow> Join M n = 0x171909)"
  by (rule Join_Split_inverse) simp_all

text \<open>
  The vectors the repository pins for \<open>For\<close>: the hash, the queue choice and the minor
  choice together give exactly these marks, so no deployed user's mark changes.
\<close>

lemma For_is_stable:
  "For ''alice@example.com'' 48 = Some 0x171909 \<and> For ''a'' 48 = Some 0x1dff6f \<and>
   For ''a'' 1 = Some 0x1e4ec \<and> For '''' 48 = Some 0x63ffa"
  by (simp add: For_def Join_def MinMinor_def minorsPerQueue_def fnv_offset64_def fnv_prime64_def
      Let_def of_char_def)

text \<open>
  What \<open>For\<close> computes, as arithmetic on natural numbers: with \<open>h\<close> the 64-bit hash
  of the email and \<open>Q\<close> queues, the mark is
  \<open>(h mod Q + 1) * 65536 + 2 + (h div Q) mod 65534\<close>; none of the 64- and 32-bit operations
  on the way wraps around or loses bits.
\<close>

lemma For_arithmetic:
  assumes "1 \<le> queues" "queues \<le> MaxQueues"
  shows "map_option unat (For email queues) =
    Some (hash_mark (fnv1a64 fnv_offset64 email) (nat queues))"
  using For_unat [OF assms, of email] by force

text \<open>
  With \<open>Q\<close> queues there are exactly \<open>Q * 65534\<close> values that \<open>Split\<close> accepts as
  user marks.
\<close>

lemma user_mark_count:
  assumes "1 \<le> queues" "queues \<le> MaxQueues"
  shows "card {m. snd (snd (Split m queues))} = nat queues * 65534"
  using finite_user_marks [of queues] assms by (simp add: user_mark_def MaxQueues_def)

end
