(* ===== verification/Go_Strings.thy ===== *)
theory Go_Strings
  imports Prelude
begin

text \<open>
  What the program uses of Go's \<open>fmt\<close>, \<open>strconv\<close> and \<open>strings\<close>: printing numbers
  with \<open>%d\<close>, \<open>%x\<close> and \<open>%#x\<close>, \<open>ParseUint\<close> and \<open>ParseInt\<close> with their bases and bit
  sizes, and the handful of string functions, on byte strings. The lemmas are the print/parse
  round trips. White space is ASCII white space: every text the program splits or trims is
  written by the kernel or by iproute2 in ASCII.
\<close>

section \<open>Printing numbers\<close>

definition digit_char :: "nat \<Rightarrow> char" where
  "digit_char d = (if d < 10 then char_of (48 + d) else char_of (87 + d))"

function fmt_base :: "nat \<Rightarrow> nat \<Rightarrow> string" where
  "fmt_base b n =
     (if b < 2 \<or> n < b then [digit_char n] else fmt_base b (n div b) @ [digit_char (n mod b)])"
  by pat_completeness auto
termination
  by (relation "measure snd") (auto intro: div_less_dividend)

declare fmt_base.simps [simp del]

abbreviation fmt_d :: "nat \<Rightarrow> string" where "fmt_d \<equiv> fmt_base 10"
abbreviation fmt_x :: "nat \<Rightarrow> string" where "fmt_x \<equiv> fmt_base 16"

definition fmt_int :: "int \<Rightarrow> string" where
  "fmt_int i = (if i < 0 then CHR ''-'' # fmt_d (nat (- i)) else fmt_d (nat i))"

definition fmt_hexp :: "nat \<Rightarrow> string" where
  "fmt_hexp n = ''0x'' @ fmt_x n"

lemma digit_char_eval:
  "digit_char 0 = CHR ''0''" "digit_char (Suc 0) = CHR ''1''" "digit_char 1 = CHR ''1''"
  "digit_char 2 = CHR ''2''" "digit_char 3 = CHR ''3''" "digit_char 4 = CHR ''4''"
  "digit_char 5 = CHR ''5''" "digit_char 6 = CHR ''6''" "digit_char 7 = CHR ''7''"
  "digit_char 8 = CHR ''8''" "digit_char 9 = CHR ''9''" "digit_char 10 = CHR ''a''"
  "digit_char 11 = CHR ''b''" "digit_char 12 = CHR ''c''" "digit_char 13 = CHR ''d''"
  "digit_char 14 = CHR ''e''" "digit_char 15 = CHR ''f''"
  by code_simp+

text \<open>Evaluates the printing of closed numbers.\<close>

lemmas fmt_eval = fmt_base.simps digit_char_eval

section \<open>Parsing numbers\<close>

text \<open>\<open>strconv\<close>'s \<open>lower\<close>: set bit 5, which lowers ASCII letters.\<close>

definition lower_byte :: "char \<Rightarrow> nat" where
  "lower_byte c = (of_char c :: nat) OR 32"

definition digit_val :: "char \<Rightarrow> nat option" where
  "digit_val c = (let n = of_char c :: nat; l = lower_byte c in
     if 48 \<le> n \<and> n \<le> 57 then Some (n - 48)
     else if 97 \<le> l \<and> l \<le> 122 then Some (l - 87)
     else None)"

fun parse_digits :: "nat \<Rightarrow> bool \<Rightarrow> nat \<Rightarrow> string \<Rightarrow> nat option" where
  "parse_digits b us acc [] = Some acc"
| "parse_digits b us acc (c # cs) =
     (if us \<and> c = CHR ''_'' then parse_digits b us acc cs
      else case digit_val c of
        None \<Rightarrow> None
      | Some d \<Rightarrow> if b \<le> d then None else parse_digits b us (acc * b + d) cs)"

text \<open>The scan of \<open>underscoreOK\<close>; the first argument is the class of the previous character:
  start, digit, underscore or other.\<close>

datatype us_class = USStart | USDigit | USUnderscore | USOther

fun underscore_scan :: "bool \<Rightarrow> us_class \<Rightarrow> string \<Rightarrow> bool" where
  "underscore_scan hex i [] = (i \<noteq> USUnderscore)"
| "underscore_scan hex i (c # cs) =
     (if (48 \<le> (of_char c :: nat) \<and> (of_char c :: nat) \<le> 57) \<or>
         (hex \<and> 97 \<le> lower_byte c \<and> lower_byte c \<le> 102)
      then underscore_scan hex USDigit cs
      else if c = CHR ''_'' then (i = USDigit \<and> underscore_scan hex USUnderscore cs)
      else (i \<noteq> USUnderscore \<and> underscore_scan hex USOther cs))"

definition underscoreOK :: "string \<Rightarrow> bool" where
  "underscoreOK s0 = (
     let s = (case s0 of c # cs \<Rightarrow> if c = CHR ''-'' \<or> c = CHR ''+'' then cs else s0 | [] \<Rightarrow> [])
     in case s of
          z # p # cs \<Rightarrow>
            if z = CHR ''0'' \<and> (lower_byte p = 98 \<or> lower_byte p = 111 \<or> lower_byte p = 120)
            then underscore_scan (lower_byte p = 120) USDigit cs
            else underscore_scan False USStart s
        | _ \<Rightarrow> underscore_scan False USStart s)"

text \<open>The base a prefix selects when \<open>ParseUint\<close> is called with base 0, and the rest.\<close>

definition base_prefix :: "string \<Rightarrow> nat \<times> string" where
  "base_prefix s = (case s of
     [] \<Rightarrow> (10, [])
   | z # cs \<Rightarrow>
       if z \<noteq> CHR ''0'' then (10, s)
       else (case cs of
         p # d # ds \<Rightarrow>
           if lower_byte p = 98 then (2, d # ds)
           else if lower_byte p = 111 then (8, d # ds)
           else if lower_byte p = 120 then (16, d # ds)
           else (8, cs)
       | _ \<Rightarrow> (8, cs)))"

text \<open>\<open>strconv.ParseUint(s, base, bits)\<close>; \<open>None\<close> stands for a non-nil error.\<close>

definition ParseUint :: "string \<Rightarrow> nat \<Rightarrow> nat \<Rightarrow> nat option" where
  "ParseUint s base bits =
     (if s = [] then None
      else let (b, ds) = (if base = 0 then base_prefix s else (base, s)) in
        case parse_digits b (base = 0) 0 ds of
          None \<Rightarrow> None
        | Some n \<Rightarrow>
            if n < 2 ^ bits \<and> (base = 0 \<and> CHR ''_'' \<in> set ds \<longrightarrow> underscoreOK s)
            then Some n else None)"

text \<open>\<open>strconv.ParseInt(s, 10, 64)\<close>.\<close>

definition ParseInt64 :: "string \<Rightarrow> int option" where
  "ParseInt64 s =
     (let neg = (s \<noteq> [] \<and> hd s = CHR ''-'');
          ds = (if s \<noteq> [] \<and> (hd s = CHR ''-'' \<or> hd s = CHR ''+'') then tl s else s)
      in case ParseUint ds 10 64 of
           None \<Rightarrow> None
         | Some n \<Rightarrow>
             if \<not> neg \<and> n < 2 ^ 63 then Some (int n)
             else if neg \<and> n \<le> 2 ^ 63 then Some (- int n)
             else None)"

section \<open>Strings\<close>

definition HasPrefix :: "string \<Rightarrow> string \<Rightarrow> bool" where
  "HasPrefix s p \<longleftrightarrow> take (length p) s = p"

definition TrimSuffix :: "string \<Rightarrow> string \<Rightarrow> string" where
  "TrimSuffix s suf =
     (if length suf \<le> length s \<and> drop (length s - length suf) s = suf
      then take (length s - length suf) s else s)"

fun Contains :: "string \<Rightarrow> string \<Rightarrow> bool" where
  "Contains [] sub = (sub = [])"
| "Contains (c # cs) sub = (HasPrefix (c # cs) sub \<or> Contains cs sub)"

text \<open>\<open>strings.Cut\<close> at a one-byte separator: the parts around its first occurrence.\<close>

fun Cut :: "string \<Rightarrow> char \<Rightarrow> (string \<times> string) option" where
  "Cut [] sep = None"
| "Cut (c # cs) sep =
     (if c = sep then Some ([], cs)
      else map_option (\<lambda>(a, b). (c # a, b)) (Cut cs sep))"

definition is_space :: "char \<Rightarrow> bool" where
  "is_space c \<longleftrightarrow> of_char c \<in> {9, 10, 11, 12, 13, 32 :: nat}"

definition TrimSpace :: "string \<Rightarrow> string" where
  "TrimSpace s = rev (dropWhile is_space (rev (dropWhile is_space s)))"

function Fields :: "string \<Rightarrow> string list" where
  "Fields s = (case dropWhile is_space s of
     [] \<Rightarrow> []
   | c # cs \<Rightarrow> (c # takeWhile (\<lambda>d. \<not> is_space d) cs) # Fields (dropWhile (\<lambda>d. \<not> is_space d) cs))"
  by pat_completeness auto
termination
proof (relation "measure length", goal_cases)
  case (2 s c cs)
  have "length (dropWhile (\<lambda>d. \<not> is_space d) cs) \<le> length cs"
    by (rule length_dropWhile_le)
  also have "\<dots> < length (dropWhile is_space s)" using 2 by simp
  also have "\<dots> \<le> length s" by (rule length_dropWhile_le)
  finally show ?case by simp
qed simp

declare Fields.simps [simp del]

fun Strings_Join :: "string list \<Rightarrow> string \<Rightarrow> string" where
  "Strings_Join [] sep = []"
| "Strings_Join [x] sep = x"
| "Strings_Join (x # y # ys) sep = x @ sep @ Strings_Join (y # ys) sep"

section \<open>Round trips\<close>

lemma of_char_digit_char: "d < 36 \<Longrightarrow> of_char (digit_char d) = (if d < 10 then 48 + d else 87 + d)"
  by (simp add: digit_char_def of_char_of)

lemma lower_byte_digit_char:
  assumes "10 \<le> d" "d < 36"
  shows "lower_byte (digit_char d) = 87 + d"
proof -
  have "\<forall>d \<in> {10..<36::nat}. (87 + d) OR 32 = 87 + d" by (simp add: atLeastLessThan_upt upt_rec)
  with assms show ?thesis by (simp add: lower_byte_def of_char_digit_char)
qed

lemma digit_val_digit_char [simp]: "d < 36 \<Longrightarrow> digit_val (digit_char d) = Some d"
  using lower_byte_digit_char [of d] by (auto simp: digit_val_def Let_def of_char_digit_char)

lemma of_char_neqI: "of_char c \<noteq> (of_char d :: nat) \<Longrightarrow> c \<noteq> d"
  by auto

lemma digit_char_neq [simp]:
  assumes "d < 36"
  shows "digit_char d \<noteq> CHR ''_''" "digit_char d \<noteq> CHR '':''" "digit_char d \<noteq> CHR ''-''"
    "digit_char d \<noteq> CHR ''+''" "digit_char d \<noteq> CHR ''/''"
  using assms by (intro of_char_neqI; simp add: of_char_digit_char)+

lemma parse_digits_append:
  "parse_digits b us acc (xs @ ys) =
     (case parse_digits b us acc xs of None \<Rightarrow> None | Some a \<Rightarrow> parse_digits b us a ys)"
  by (induction xs arbitrary: acc) (auto split: option.splits)

lemma parse_fmt_base:
  assumes "2 \<le> b" "b \<le> 36"
  shows "parse_digits b us 0 (fmt_base b n) = Some n"
  using assms
proof (induction b n rule: fmt_base.induct)
  case (1 b n)
  define r where "r = n mod b"
  have "r < b" using "1.prems" by (simp add: r_def)
  moreover from this have "r < 36" using "1.prems" by linarith
  moreover have "n div b * b + r = n" by (simp add: r_def)
  ultimately show ?case
    using 1 by (subst fmt_base.simps) (auto simp: parse_digits_append r_def [symmetric])
qed

lemma fmt_base_not_Nil [simp]: "fmt_base b n \<noteq> []"
  by (subst fmt_base.simps) simp

lemma set_fmt_base:
  assumes "2 \<le> b" "b \<le> 36" "c \<in> set (fmt_base b n)"
  obtains d where "d < b" "c = digit_char d"
proof -
  have "\<exists>d<b. c = digit_char d"
    using assms
  proof (induction b n rule: fmt_base.induct)
    case (1 b n)
    show ?case
    proof (cases "n < b")
      case True
      with "1.prems" show ?thesis by (subst (asm) fmt_base.simps) auto
    next
      case False
      have "\<exists>d<b. digit_char (n mod b) = digit_char d"
        using "1.prems"(1) by (intro exI [of _ "n mod b"]) simp
      with 1 False show ?thesis
        by (subst (asm) (2) fmt_base.simps) auto
    qed
  qed
  then show ?thesis using that by blast
qed

lemma fmt_base_chars [simp]:
  assumes "2 \<le> b" "b \<le> 36"
  shows "CHR ''_'' \<notin> set (fmt_base b n)" "CHR '':'' \<notin> set (fmt_base b n)"
  using assms by (auto elim!: set_fmt_base) (metis digit_char_neq less_le_trans)+

lemma ParseUint_fmt_base:
  "2 \<le> b \<Longrightarrow> b \<le> 36 \<Longrightarrow> n < 2 ^ bits \<Longrightarrow> ParseUint (fmt_base b n) b bits = Some n"
  by (simp add: ParseUint_def parse_fmt_base)

lemma ParseUint_fmt_d [simp]: "n < 2 ^ bits \<Longrightarrow> ParseUint (fmt_d n) 10 bits = Some n"
  by (simp add: ParseUint_fmt_base)

lemma ParseUint_fmt_x [simp]: "n < 2 ^ bits \<Longrightarrow> ParseUint (fmt_x n) 16 bits = Some n"
  by (simp add: ParseUint_fmt_base)

lemma ParseUint_fmt_hexp [simp]:
  assumes "n < 2 ^ bits"
  shows "ParseUint (fmt_hexp n) 0 bits = Some n"
proof -
  obtain d ds where ds: "fmt_x n = d # ds" by (cases "fmt_x n") simp_all
  have "lower_byte CHR ''x'' = 120" by (simp add: lower_byte_def)
  then have "base_prefix (fmt_hexp n) = (16, fmt_x n)"
    by (simp add: fmt_hexp_def base_prefix_def ds)
  then show ?thesis using assms
    by (simp add: ParseUint_def parse_fmt_base) (simp add: fmt_hexp_def)
qed

lemma fmt_base_inj:
  assumes "2 \<le> b" "b \<le> 36" "fmt_base b m = fmt_base b n"
  shows "m = n"
  using assms parse_fmt_base by (metis option.inject)

lemma Cut_append [simp]: "sep \<notin> set xs \<Longrightarrow> Cut (xs @ sep # ys) sep = Some (xs, ys)"
  by (induction xs) auto

lemma TrimSuffix_append [simp]: "TrimSuffix (xs @ suf) suf = xs"
  by (simp add: TrimSuffix_def)

lemma HasPrefix_append [simp]: "HasPrefix (p @ s) p"
  by (simp add: HasPrefix_def)

lemma HasPrefix_iff: "HasPrefix s p \<longleftrightarrow> (\<exists>r. s = p @ r)"
  by (metis HasPrefix_append HasPrefix_def append_take_drop_id)

lemma Contains_iff: "Contains s sub \<longleftrightarrow> (\<exists>a b. s = a @ sub @ b)"
proof (induction s)
  case (Cons c cs)
  have "(\<exists>a b. c # cs = a @ sub @ b) \<longleftrightarrow> (\<exists>b. c # cs = sub @ b) \<or> (\<exists>a b. cs = a @ sub @ b)"
    by (metis append_Cons append_Nil list.inject neq_Nil_conv)
  then show ?case using Cons by (simp add: HasPrefix_iff)
qed auto

end
