(* ===== verification/Go_Json.thy ===== *)
theory Go_Json
  imports Go_Strings
begin

text \<open>
  What the program uses of \<open>encoding/json\<close>: the text of a value is parsed into a tree
  (\<open>json_value\<close>; \<open>json_unmarshal\<close> for \<open>json.Unmarshal\<close>, which wants the whole text,
  \<open>json_decode\<close> for \<open>Decoder.Decode\<close>, which reads the first value and leaves the rest),
  and a tree is stored into a Go value by a decoder. A decoder gets the tree and the value
  decoded into, and returns the new value and whether an error was recorded, as the package
  does: null leaves a non-pointer alone, a wrong type records an error and goes on, object keys
  match field names exactly or else by case folding, unknown keys are skipped unless disallowed.
  Numbers keep their source text. The package's limit of 10000 nested values is left out.
\<close>

section \<open>Trees\<close>

datatype json =
    JNull
  | JBool bool
  | JNum string
  | JStr string
  | JArr "json list"
  | JObj "(string \<times> json) list"

section \<open>Strings\<close>

definition is_json_space :: "char \<Rightarrow> bool" where
  "is_json_space c \<longleftrightarrow> of_char c \<in> {9, 10, 13, 32 :: nat}"

definition skip_ws :: "string \<Rightarrow> string" where
  "skip_ws s = dropWhile is_json_space s"

definition utf8_encode :: "nat \<Rightarrow> string" where
  "utf8_encode r =
     (if r < 128 then [char_of r]
      else if r < 2048 then [char_of (192 + r div 64), char_of (128 + r mod 64)]
      else if r < 65536 then
        [char_of (224 + r div 4096), char_of (128 + r div 64 mod 64), char_of (128 + r mod 64)]
      else [char_of (240 + r div 262144), char_of (128 + r div 4096 mod 64),
            char_of (128 + r div 64 mod 64), char_of (128 + r mod 64)])"

text \<open>The length of the valid UTF-8 sequence a byte string starts with, 0 if there is none.\<close>

definition utf8_cont :: "nat \<Rightarrow> nat \<Rightarrow> char list \<Rightarrow> nat \<Rightarrow> bool" where
  "utf8_cont lo hi s i \<longleftrightarrow> i < length s \<and> lo \<le> of_char (s ! i) \<and> of_char (s ! i) \<le> hi"

definition utf8_len :: "string \<Rightarrow> nat" where
  "utf8_len s = (case s of [] \<Rightarrow> 0 | c # _ \<Rightarrow>
     let b = of_char c :: nat;
         lo = (if b = 224 then 160 else if b = 240 then 144 else 128);
         hi = (if b = 237 then 159 else if b = 244 then 143 else 191)
     in if b < 128 then 1
        else if 194 \<le> b \<and> b \<le> 223 then (if utf8_cont 128 191 s 1 then 2 else 0)
        else if 224 \<le> b \<and> b \<le> 239 then
          (if utf8_cont lo hi s 1 \<and> utf8_cont 128 191 s 2 then 3 else 0)
        else if 240 \<le> b \<and> b \<le> 244 then
          (if utf8_cont lo hi s 1 \<and> utf8_cont 128 191 s 2 \<and> utf8_cont 128 191 s 3 then 4 else 0)
        else 0)"

fun hex4 :: "string \<Rightarrow> nat option" where
  "hex4 (a # b # c # d # _) = parse_digits 16 False 0 [a, b, c, d]"
| "hex4 _ = None"

text \<open>The escape \<open>\u\<close> of a code unit; the second component is a low surrogate escape that
  may follow. The result is the encoded rune and whether the second escape was used.\<close>

definition decode_u4 :: "nat \<Rightarrow> nat option \<Rightarrow> string \<times> bool" where
  "decode_u4 u next =
     (if u < 55296 \<or> 57343 < u then (utf8_encode u, False)
      else case next of
        Some l \<Rightarrow>
          if u < 56320 \<and> 56320 \<le> l \<and> l \<le> 57343
          then (utf8_encode (65536 + (u - 55296) * 1024 + (l - 56320)), True)
          else (utf8_encode 65533, False)
      | None \<Rightarrow> (utf8_encode 65533, False))"

definition following_u4 :: "string \<Rightarrow> nat option" where
  "following_u4 s = (if HasPrefix s [CHR 0x5C, CHR ''u''] then hex4 (drop 2 s) else None)"

definition simple_escape :: "char \<Rightarrow> char option" where
  "simple_escape c = map_of
     [(CHR 0x22, CHR 0x22), (CHR 0x5C, CHR 0x5C), (CHR ''/'', CHR ''/''), (CHR ''b'', CHR 0x08),
      (CHR ''f'', CHR 0x0C), (CHR ''n'', CHR 0x0A), (CHR ''r'', CHR 0x0D), (CHR ''t'', CHR 0x09)] c"

text \<open>The text after an opening quote: the decoded string and what follows the closing quote.\<close>

function json_string :: "string \<Rightarrow> (string \<times> string) option" where
  "json_string s = (case s of
     [] \<Rightarrow> None
   | c # r \<Rightarrow>
       if c = CHR 0x22 then Some ([], r)
       else if c = CHR 0x5C then
         (case r of
            [] \<Rightarrow> None
          | e # r' \<Rightarrow>
              if e = CHR ''u'' then
                (case hex4 r' of
                   None \<Rightarrow> None
                 | Some u \<Rightarrow>
                     let rest = drop 4 r'; (t, used) = decode_u4 u (following_u4 rest) in
                     map_option (\<lambda>(x, y). (t @ x, y)) (json_string (if used then drop 6 rest else rest)))
              else (case simple_escape e of
                None \<Rightarrow> None
              | Some d \<Rightarrow> map_option (\<lambda>(x, y). (d # x, y)) (json_string r')))
       else if (of_char c :: nat) < 32 then None
       else let n = utf8_len s in
         if n = 0 then map_option (\<lambda>(x, y). (utf8_encode 65533 @ x, y)) (json_string r)
         else map_option (\<lambda>(x, y). (take n s @ x, y)) (json_string (drop n s)))"
  by pat_completeness auto
termination by (relation "measure length") (auto split: if_splits)

declare json_string.simps [simp del]

section \<open>Numbers\<close>

definition is_digit :: "char \<Rightarrow> bool" where
  "is_digit c \<longleftrightarrow> 48 \<le> (of_char c :: nat) \<and> (of_char c :: nat) \<le> 57"

text \<open>The three parts of a number literal; each gives the text it takes and the rest.\<close>

definition num_int :: "string \<Rightarrow> (string \<times> string) option" where
  "num_int s = (case s of
     [] \<Rightarrow> None
   | c # r \<Rightarrow> if c = CHR ''0'' then Some ([c], r)
       else if is_digit c then Some (c # takeWhile is_digit r, dropWhile is_digit r)
       else None)"

definition num_digits :: "string \<Rightarrow> (string \<times> string) option" where
  "num_digits s = (if takeWhile is_digit s = [] then None
     else Some (takeWhile is_digit s, dropWhile is_digit s))"

definition num_frac :: "string \<Rightarrow> (string \<times> string) option" where
  "num_frac s = (case s of
     c # r \<Rightarrow> if c = CHR ''.'' then map_option (\<lambda>(a, b). (c # a, b)) (num_digits r) else Some ([], s)
   | [] \<Rightarrow> Some ([], []))"

definition num_exp :: "string \<Rightarrow> (string \<times> string) option" where
  "num_exp s = (case s of
     c # r \<Rightarrow> if c = CHR ''e'' \<or> c = CHR ''E'' then
         (case r of
            d # r' \<Rightarrow> if d = CHR ''+'' \<or> d = CHR ''-''
              then map_option (\<lambda>(a, b). (c # d # a, b)) (num_digits r')
              else map_option (\<lambda>(a, b). (c # a, b)) (num_digits r)
          | [] \<Rightarrow> None)
       else Some ([], s)
   | [] \<Rightarrow> Some ([], []))"

definition json_number :: "string \<Rightarrow> (string \<times> string) option" where
  "json_number s =
     (let (sign, s1) = (case s of c # r \<Rightarrow> if c = CHR ''-'' then ([c], r) else ([], s) | [] \<Rightarrow> ([], []))
      in case num_int s1 of None \<Rightarrow> None | Some (a, s2) \<Rightarrow>
         (case num_frac s2 of None \<Rightarrow> None | Some (b, s3) \<Rightarrow>
         (case num_exp s3 of None \<Rightarrow> None | Some (e, s4) \<Rightarrow> Some (sign @ a @ b @ e, s4))))"

section \<open>Values\<close>

definition json_scalar :: "string \<Rightarrow> (json \<times> string) option" where
  "json_scalar s =
     (if HasPrefix s ''null'' then Some (JNull, drop 4 s)
      else if HasPrefix s ''true'' then Some (JBool True, drop 4 s)
      else if HasPrefix s ''false'' then Some (JBool False, drop 5 s)
      else map_option (\<lambda>(t, r). (JNum t, r)) (json_number s))"

text \<open>The recursion is bounded by fuel; \<open>json_value_enough_fuel\<close> below shows that
  \<open>json_fuel\<close> never runs out.\<close>

fun json_value :: "nat \<Rightarrow> string \<Rightarrow> (json \<times> string) option"
and json_elems :: "nat \<Rightarrow> string \<Rightarrow> (json list \<times> string) option"
and json_members :: "nat \<Rightarrow> string \<Rightarrow> ((string \<times> json) list \<times> string) option" where
  "json_value 0 s = None"
| "json_value (Suc f) s = (case skip_ws s of
     [] \<Rightarrow> None
   | c # r \<Rightarrow>
       if c = CHR 0x22 then map_option (\<lambda>(t, r'). (JStr t, r')) (json_string r)
       else if c = CHR ''['' then
         (if skip_ws r \<noteq> [] \<and> hd (skip_ws r) = CHR '']'' then Some (JArr [], tl (skip_ws r))
          else map_option (\<lambda>(vs, r'). (JArr vs, r')) (json_elems f r))
       else if c = CHR ''{'' then
         (if skip_ws r \<noteq> [] \<and> hd (skip_ws r) = CHR ''}'' then Some (JObj [], tl (skip_ws r))
          else map_option (\<lambda>(ms, r'). (JObj ms, r')) (json_members f r))
       else json_scalar (c # r))"
| "json_elems 0 s = None"
| "json_elems (Suc f) s = (case json_value f s of
     None \<Rightarrow> None
   | Some (v, r) \<Rightarrow> (case skip_ws r of
       c # r' \<Rightarrow> if c = CHR '']'' then Some ([v], r')
         else if c = CHR '','' then map_option (\<lambda>(vs, r''). (v # vs, r'')) (json_elems f r')
         else None
     | [] \<Rightarrow> None))"
| "json_members 0 s = None"
| "json_members (Suc f) s = (case skip_ws s of
     c # r \<Rightarrow> if c \<noteq> CHR 0x22 then None else
       (case json_string r of
          None \<Rightarrow> None
        | Some (k, r1) \<Rightarrow> (case skip_ws r1 of
            d # r2 \<Rightarrow> if d \<noteq> CHR '':'' then None else
              (case json_value f r2 of
                 None \<Rightarrow> None
               | Some (v, r3) \<Rightarrow> (case skip_ws r3 of
                   e # r4 \<Rightarrow> if e = CHR ''}'' then Some ([(k, v)], r4)
                     else if e = CHR '','' then map_option (\<lambda>(ms, r'). ((k, v) # ms, r')) (json_members f r4)
                     else None
                 | [] \<Rightarrow> None))
          | [] \<Rightarrow> None))
   | [] \<Rightarrow> None)"

definition json_fuel :: "string \<Rightarrow> nat" where
  "json_fuel s = 2 * length s + 1"

definition json_unmarshal :: "string \<Rightarrow> json option" where
  "json_unmarshal s = (case json_value (json_fuel s) s of
     Some (v, r) \<Rightarrow> if skip_ws r = [] then Some v else None
   | None \<Rightarrow> None)"

definition json_decode :: "string \<Rightarrow> json option" where
  "json_decode s = map_option fst (json_value (json_fuel s) s)"

section \<open>Enough fuel\<close>

lemma length_skip_ws: "length (skip_ws s) \<le> length s"
  unfolding skip_ws_def by (rule length_dropWhile_le)

lemma length_skip_ws_Cons: "skip_ws s = c # r \<Longrightarrow> length r < length s"
  using length_skip_ws [of s] by simp

lemma length_dropWhile_less: "length t < n \<Longrightarrow> length (dropWhile P t) < n"
  using length_dropWhile_le [of P t] by linarith

lemma json_string_consumes: "json_string s = Some (x, r) \<Longrightarrow> length r < length s"
proof (induction s arbitrary: x r rule: length_induct)
  case (1 s)
  have IH: "length r' < length s" if "json_string t = Some (y, r')" "length t < length s" for t y r'
    using 1(1) that by fastforce
  show ?case
    using 1(2)
    by (subst (asm) json_string.simps)
       (auto split: if_splits list.splits option.splits prod.splits simp: Let_def dest!: IH)
qed

lemma num_digits_consumes: "num_digits s = Some (a, r) \<Longrightarrow> length r \<le> length s"
  by (auto simp: num_digits_def length_dropWhile_le split: if_splits)

lemma num_int_consumes: "num_int s = Some (a, r) \<Longrightarrow> length r < length s"
  by (auto simp: num_int_def less_Suc_eq_le length_dropWhile_le split: list.splits if_splits)

lemma num_frac_consumes: "num_frac s = Some (a, r) \<Longrightarrow> length r \<le> length s"
  by (auto simp: num_frac_def split: list.splits if_splits dest!: num_digits_consumes)

lemma num_exp_consumes: "num_exp s = Some (a, r) \<Longrightarrow> length r \<le> length s"
  by (auto simp: num_exp_def split: list.splits if_splits dest!: num_digits_consumes)

lemma json_number_consumes:
  assumes "json_number s = Some (x, r)"
  shows "length r < length s"
proof -
  obtain s1 a s2 b s3 e s4 where "length s1 \<le> length s"
      "num_int s1 = Some (a, s2)" "num_frac s2 = Some (b, s3)" "num_exp s3 = Some (e, r)"
    using assms by (auto simp: json_number_def split: list.splits if_splits option.splits prod.splits)
       (metis le_SucI le_refl length_Cons)+
  then show ?thesis
    using num_int_consumes [of s1 a s2] num_frac_consumes [of s2 b s3] num_exp_consumes [of s3 e r]
    by linarith
qed

lemma json_scalar_consumes: "json_scalar s = Some (x, r) \<Longrightarrow> length r < length s"
  by (auto simp: json_scalar_def HasPrefix_iff dest: json_number_consumes split: if_splits)


lemma skip_ws_drop: "skip_ws s = c # r \<Longrightarrow> length r < length s"
  using length_skip_ws [of s] by simp

lemma skip_ws_tl: "skip_ws s \<noteq> [] \<Longrightarrow> length (tl (skip_ws s)) < length s"
  using length_skip_ws [of s] by (cases "skip_ws s") auto

lemma json_consumes:
  "json_value f s = Some (v, r) \<Longrightarrow> length r < length s"
  "json_elems f s = Some (vs, r) \<Longrightarrow> length r < length s"
  "json_members f s = Some (ms, r) \<Longrightarrow> length r < length s"
proof (induction f s and f s and f s arbitrary: v r and vs r and ms r
    rule: json_value_json_elems_json_members.induct)
  case (2 f s)
  show ?case
  proof (cases "skip_ws s")
    case (Cons c t)
    have len: "Suc (length t) \<le> length s" using length_skip_ws [of s] Cons by simp
    show ?thesis
      using "2.prems" len "2.IH" Cons length_skip_ws [of t] 
      by (auto split: if_splits dest: json_string_consumes json_scalar_consumes)
         (force intro: less_trans)+
  qed (use 2 in simp)
next
  case (4 f s)
  then show ?case
    by (auto split: option.splits list.splits if_splits dest!: skip_ws_drop) 
       (force intro: less_trans)
next
  case (6 f s)
  then show ?case
    by (auto split: option.splits list.splits if_splits dest!: skip_ws_drop json_string_consumes)
       (force intro: less_trans)+
qed auto

lemma json_fuel_stable:
  "2 * length s + 1 \<le> f \<Longrightarrow> json_value (Suc f) s = json_value f s"
  "2 * length s + 2 \<le> f \<Longrightarrow> json_elems (Suc f) s = json_elems f s"
  "2 * length s + 2 \<le> f \<Longrightarrow> json_members (Suc f) s = json_members f s"
proof (induction f arbitrary: s)
  case (Suc f)
  {
    case 1
    show ?case
    proof (cases "skip_ws s")
      case (Cons c t)
      have "2 * length t + 2 \<le> f" using skip_ws_drop [OF Cons] 1 by simp
      then have "json_elems (Suc f) t = json_elems f t" "json_members (Suc f) t = json_members f t"
        using Suc.IH by blast+
      then show ?thesis by (simp add: Cons del: json_elems.simps json_members.simps)
    qed simp
  next
    case 2
    have v: "json_value (Suc f) s = json_value f s" using Suc.IH(1) 2 by simp
    have e: "json_elems (Suc f) t = json_elems f t"
      if "json_value f s = Some (v, r)" "skip_ws r = c # t" for v r c t
      using json_consumes(1) [OF that(1)] skip_ws_drop [OF that(2)] 2 by (intro Suc.IH) simp
    show ?case
      unfolding json_elems.simps(2) [of "Suc f" s] json_elems.simps(2) [of f s] v
      by (auto simp: e simp del: json_elems.simps split: option.split list.split)
  next
    case 3
    have v: "json_value (Suc f) r2 = json_value f r2"
      if "skip_ws s = c # r" "json_string r = Some (k, r1)" "skip_ws r1 = d # r2" for c r k r1 d r2
      using skip_ws_drop [OF that(1)] json_string_consumes [OF that(2)] skip_ws_drop [OF that(3)] 3
      by (intro Suc.IH) simp
    have m: "json_members (Suc f) r4 = json_members f r4"
      if "skip_ws s = c # r" "json_string r = Some (k, r1)" "skip_ws r1 = d # r2"
        "json_value f r2 = Some (v, r3)" "skip_ws r3 = e # r4" for c r k r1 d r2 v r3 e r4
      using skip_ws_drop [OF that(1)] json_string_consumes [OF that(2)] skip_ws_drop [OF that(3)]
        json_consumes(1) [OF that(4)] skip_ws_drop [OF that(5)] 3 by (intro Suc.IH) simp
    show ?case
      unfolding json_members.simps(2) [of "Suc f" s] json_members.simps(2) [of f s]
      by (auto simp: v m simp del: json_value.simps json_members.simps split: option.split list.split)
  }
qed simp_all

text \<open>Any amount of fuel from \<open>json_fuel\<close> on gives the same result.\<close>

lemma json_value_enough_fuel: "json_fuel s \<le> f \<Longrightarrow> json_value f s = json_value (json_fuel s) s"
proof (induction f rule: dec_induct)
  case (step f)
  then show ?case using json_fuel_stable(1) [of s f] by (simp add: json_fuel_def)
qed simp

section \<open>Decoding into Go values\<close>

text \<open>A decoder for \<open>'a\<close>: the tree and the old value give the new value and whether an
  error was recorded.\<close>

type_synonym 'a decoder = "json \<Rightarrow> 'a \<Rightarrow> 'a \<times> bool"

fun dec_string :: "string decoder" where
  "dec_string (JStr s) old = (s, False)"
| "dec_string JNull old = (old, False)"
| "dec_string _ old = (old, True)"

fun dec_bool :: "bool decoder" where
  "dec_bool (JBool b) old = (b, False)"
| "dec_bool JNull old = (old, False)"
| "dec_bool _ old = (old, True)"

fun dec_uint64 :: "u64 decoder" where
  "dec_uint64 (JNum t) old =
     (case ParseUint t 10 64 of Some n \<Rightarrow> (of_nat n, False) | None \<Rightarrow> (old, True))"
| "dec_uint64 JNull old = (old, False)"
| "dec_uint64 _ old = (old, True)"

fun dec_int :: "int decoder" where
  "dec_int (JNum t) old =
     (case ParseInt64 t of Some n \<Rightarrow> (n, False) | None \<Rightarrow> (old, True))"
| "dec_int JNull old = (old, False)"
| "dec_int _ old = (old, True)"

text \<open>A pointer: null makes it nil, anything else is decoded into what it points to, or into
  a fresh zero value.\<close>

definition dec_ptr :: "'a \<Rightarrow> 'a decoder \<Rightarrow> 'a option decoder" where
  "dec_ptr zero d j old = (case j of
     JNull \<Rightarrow> (None, False)
   | _ \<Rightarrow> (let (v, e) = d j (case old of None \<Rightarrow> zero | Some v \<Rightarrow> v) in (Some v, e)))"

text \<open>A slice: each element is decoded into the old one at its index, or a zero value.\<close>

fun dec_elems :: "'a \<Rightarrow> 'a decoder \<Rightarrow> json list \<Rightarrow> 'a list \<Rightarrow> 'a list \<times> bool" where
  "dec_elems zero d [] olds = ([], False)"
| "dec_elems zero d (j # js) olds =
     (let (v, e) = d j (case olds of [] \<Rightarrow> zero | x # _ \<Rightarrow> x);
          (vs, e') = dec_elems zero d js (case olds of [] \<Rightarrow> [] | _ # xs \<Rightarrow> xs)
      in (v # vs, e \<or> e'))"

fun dec_slice :: "'a \<Rightarrow> 'a decoder \<Rightarrow> 'a list decoder" where
  "dec_slice zero d (JArr js) old = dec_elems zero d js old"
| "dec_slice zero d JNull old = ([], False)"
| "dec_slice zero d _ old = (old, True)"

text \<open>The package's case folding of a key, as far as it can meet an ASCII field name: ASCII
  letters, the long s and the Kelvin sign.\<close>

fun fold_name :: "string \<Rightarrow> string" where
  "fold_name (c # d # e # cs) =
     (if c = CHR 0xC5 \<and> d = CHR 0xBF then CHR ''S'' # fold_name (e # cs)
      else if c = CHR 0xE2 \<and> d = CHR 0x84 \<and> e = CHR 0xAA then CHR ''K'' # fold_name cs
      else (if 97 \<le> (of_char c :: nat) \<and> of_char c \<le> (122 :: nat) then char_of ((of_char c :: nat) - 32) else c)
           # fold_name (d # e # cs))"
| "fold_name (c # cs) =
     (if c = CHR 0xC5 \<and> cs = [CHR 0xBF] then [CHR ''S'']
      else (if 97 \<le> (of_char c :: nat) \<and> of_char c \<le> (122 :: nat) then char_of ((of_char c :: nat) - 32) else c)
           # fold_name cs)"
| "fold_name [] = []"

definition find_field :: "(string \<times> 'a decoder) list \<Rightarrow> string \<Rightarrow> 'a decoder option" where
  "find_field fs k = (case map_of fs k of
     Some d \<Rightarrow> Some d
   | None \<Rightarrow> map_option snd (find (\<lambda>(n, _). fold_name n = fold_name k) fs))"

fun dec_fields :: "bool \<Rightarrow> (string \<times> 'a decoder) list \<Rightarrow> (string \<times> json) list \<Rightarrow> 'a \<Rightarrow> 'a \<times> bool" where
  "dec_fields disallow fs [] s = (s, False)"
| "dec_fields disallow fs ((k, j) # ms) s = (case find_field fs k of
     None \<Rightarrow> (let (s', e) = dec_fields disallow fs ms s in (s', disallow \<or> e))
   | Some d \<Rightarrow> (let (s', e) = d j s; (s'', e') = dec_fields disallow fs ms s' in (s'', e \<or> e')))"

fun dec_struct :: "bool \<Rightarrow> (string \<times> 'a decoder) list \<Rightarrow> 'a decoder" where
  "dec_struct disallow fs (JObj ms) old = dec_fields disallow fs ms old"
| "dec_struct disallow fs JNull old = (old, False)"
| "dec_struct disallow fs _ old = (old, True)"

text \<open>The decoder of one field of a struct, given how to read and write the field.\<close>

definition dec_field :: "('s \<Rightarrow> 'a) \<Rightarrow> (('a \<Rightarrow> 'a) \<Rightarrow> 's \<Rightarrow> 's) \<Rightarrow> 'a decoder \<Rightarrow> 's decoder" where
  "dec_field get upd d j s = (let (v, e) = d j (get s) in (upd (\<lambda>_. v) s, e))"

text \<open>\<open>json.Unmarshal\<close> and \<open>Decoder.Decode\<close> into a zero value; \<open>None\<close> is an error.\<close>

definition unmarshal_into :: "'a decoder \<Rightarrow> 'a \<Rightarrow> string \<Rightarrow> 'a option" where
  "unmarshal_into d zero s = (case json_unmarshal s of
     None \<Rightarrow> None
   | Some j \<Rightarrow> (let (v, e) = d j zero in if e then None else Some v))"

definition decode_into :: "'a decoder \<Rightarrow> 'a \<Rightarrow> string \<Rightarrow> 'a option" where
  "decode_into d zero s = (case json_decode s of
     None \<Rightarrow> None
   | Some j \<Rightarrow> (let (v, e) = d j zero in if e then None else Some v))"

text \<open>A plain string between quotes, to write JSON texts with.\<close>

definition jq :: "string \<Rightarrow> string" where
  "jq s = CHR 0x22 # s @ [CHR 0x22]"

end
