(* ===== verification/Exec.thy ===== *)
theory Exec
  imports Go_Json
begin

text \<open>
  External commands (\<open>os/exec\<close>). The programs the service runs (\<open>tc\<close>, \<open>nft\<close>,
  \<open>ethtool\<close>) are not part of the repository, so what they answer is a parameter: the environment
  \<open>os\<close> holds an arbitrary function from the commands run so far, their results and the next
  command to its result, and the trace of the commands run with the results they gave. A theorem
  over all environments therefore covers every behaviour of those programs, including other
  tools changing the kernel's state between two commands. \<open>tc_run\<close> and \<open>runJSON\<close> are the
  helpers at the end of \<open>internal/tcshape/tcshape.go\<close>.
\<close>

section \<open>Commands, results, environment\<close>

record command =
  cmd_name :: string
  cmd_args :: "string list"
  cmd_stdin :: string

text \<open>\<open>cr_error\<close> is the text of the error \<open>Run\<close>, \<open>Output\<close> or \<open>CombinedOutput\<close> returns
  (a failed start, an exit status other than 0), \<open>None\<close> if it returns nil.\<close>

record cmd_result =
  cr_error :: "string option"
  cr_stdout :: string
  cr_stderr :: string
  cr_combined :: string

type_synonym exec_trace = "(command \<times> cmd_result) list"

record os =
  os_reply :: "exec_trace \<Rightarrow> command \<Rightarrow> cmd_result"
  os_trace :: exec_trace

definition os_exec :: "command \<Rightarrow> os \<Rightarrow> cmd_result \<times> os" where
  "os_exec c os =
     (let r = os_reply os (os_trace os) c in (r, os\<lparr>os_trace := os_trace os @ [(c, r)]\<rparr>))"

abbreviation plain_command :: "string \<Rightarrow> string list \<Rightarrow> command" where
  "plain_command name args \<equiv> \<lparr>cmd_name = name, cmd_args = args, cmd_stdin = []\<rparr>"

definition cmd_ok :: "cmd_result \<Rightarrow> bool" where
  "cmd_ok r \<longleftrightarrow> cr_error r = None"

section \<open>The helpers run and runJSON\<close>

text \<open>The error both return: the command line, the error, the trimmed output.\<close>

definition cmd_error :: "string \<Rightarrow> string list \<Rightarrow> string \<Rightarrow> string \<Rightarrow> go_error" where
  "cmd_error name args e out =
     name @ '' '' @ Strings_Join args '' '' @ '': '' @ e @ '': '' @ TrimSpace out"

definition tc_run :: "string \<Rightarrow> string list \<Rightarrow> os \<Rightarrow> err_opt \<times> os" where
  "tc_run name args os =
     (case os_exec (plain_command name args) os of (r, os') \<Rightarrow>
        (case cr_error r of
           Some e \<Rightarrow> (Some (cmd_error name args e (cr_combined r)), os')
         | None \<Rightarrow> (None, os')))"

definition runJSON :: "string \<Rightarrow> string list \<Rightarrow> os \<Rightarrow> string go_result \<times> os" where
  "runJSON name args os =
     (case os_exec (plain_command name args) os of (r, os') \<Rightarrow>
        (case cr_error r of
           Some e \<Rightarrow> (Inl (cmd_error name args e (cr_stderr r)), os')
         | None \<Rightarrow> (Inr (cr_stdout r), os')))"

section \<open>Traces\<close>

text \<open>The commands an action adds to the trace.\<close>

definition new_trace :: "os \<Rightarrow> os \<Rightarrow> exec_trace" where
  "new_trace os os' = drop (length (os_trace os)) (os_trace os')"

text \<open>\<open>extends os os' t\<close>: \<open>os'\<close> is \<open>os\<close> after the commands of \<open>t\<close>, with the results the
  environment gives them.\<close>

inductive extends :: "os \<Rightarrow> exec_trace \<Rightarrow> os \<Rightarrow> bool" where
  ext_refl: "extends os [] os"
| ext_step: "extends os t os' \<Longrightarrow> os_exec c os' = (r, os'') \<Longrightarrow> extends os (t @ [(c, r)]) os''"

lemma os_exec_simps [simp]:
  "os_trace (snd (os_exec c os)) = os_trace os @ [(c, fst (os_exec c os))]"
  "os_reply (snd (os_exec c os)) = os_reply os"
  by (simp_all add: os_exec_def Let_def)

lemma os_exec_trace: "os_exec c os = (r, os') \<Longrightarrow> os_trace os' = os_trace os @ [(c, r)]"
  by (auto simp: os_exec_def Let_def)

lemma os_exec_reply: "os_exec c os = (r, os') \<Longrightarrow> os_reply os' = os_reply os"
  by (auto simp: os_exec_def Let_def)

lemma extends_trace: "extends os t os' \<Longrightarrow> os_trace os' = os_trace os @ t \<and> os_reply os' = os_reply os"
  by (induction rule: extends.induct) (auto dest: os_exec_trace os_exec_reply)

lemma extends_trans: "extends os t os' \<Longrightarrow> extends os' u os'' \<Longrightarrow> extends os (t @ u) os''"
proof (rotate_tac, induction rule: extends.induct)
  case (ext_step os0 t' os1 c r os2)
  then have "extends os (t @ t') os1" by blast
  from extends.ext_step [OF this ext_step.hyps(2)] show ?case by simp
qed simp

lemma extends_exec: "os_exec c os = (r, os') \<Longrightarrow> extends os [(c, r)] os'"
  using extends.ext_step [OF extends.ext_refl, of c os r os'] by simp

lemma tc_run_cases:
  assumes "tc_run name args os = (e, os')"
  obtains r where "extends os [(plain_command name args, r)] os'" "e = None \<longleftrightarrow> cmd_ok r"
    "e \<noteq> None \<longrightarrow> e = Some (cmd_error name args (the (cr_error r)) (cr_combined r))"
proof -
  obtain r where r: "os_exec (plain_command name args) os = (r, os')"
    using assms by (auto simp: tc_run_def split: prod.splits option.splits)
  with assms have "(e = None \<longleftrightarrow> cmd_ok r) \<and>
      (e \<noteq> None \<longrightarrow> e = Some (cmd_error name args (the (cr_error r)) (cr_combined r)))"
    by (auto simp: tc_run_def cmd_ok_def split: option.splits)
  with that extends_exec [OF r] show ?thesis by blast
qed

lemma runJSON_cases:
  assumes "runJSON name args os = (v, os')"
  obtains r where "extends os [(plain_command name args, r)] os'"
    "v = (if cmd_ok r then Inr (cr_stdout r)
          else Inl (cmd_error name args (the (cr_error r)) (cr_stderr r)))"
proof -
  obtain r where r: "os_exec (plain_command name args) os = (r, os')"
    using assms by (auto simp: runJSON_def split: prod.splits option.splits)
  with assms have "v = (if cmd_ok r then Inr (cr_stdout r)
      else Inl (cmd_error name args (the (cr_error r)) (cr_stderr r)))"
    by (auto simp: runJSON_def cmd_ok_def split: option.splits)
  with that extends_exec [OF r] show ?thesis by blast
qed

text \<open>Two concrete environments, for the closed instances of the theorems: one in which every
  command succeeds and prints the same text, one in which every command fails.\<close>

definition ok_result :: "string \<Rightarrow> cmd_result" where
  "ok_result out = \<lparr>cr_error = None, cr_stdout = out, cr_stderr = [], cr_combined = out\<rparr>"

definition failed_result :: "string \<Rightarrow> cmd_result" where
  "failed_result out = \<lparr>cr_error = Some ''exit status 2'', cr_stdout = [], cr_stderr = out, cr_combined = out\<rparr>"

definition os_always :: "cmd_result \<Rightarrow> os" where
  "os_always r = \<lparr>os_reply = (\<lambda>_ _. r), os_trace = []\<rparr>"

lemma os_always_simps [simp]:
  "os_trace (os_always r) = []" "os_reply (os_always r) t c = r"
  by (simp_all add: os_always_def)

lemma ok_result_simps [simp]:
  "cmd_ok (ok_result out)" "cr_error (ok_result out) = None" "cr_stdout (ok_result out) = out"
  by (simp_all add: ok_result_def cmd_ok_def)

end
