(* ===== verification/Interfaces.thy ===== *)
theory Interfaces
  imports Prelude
begin

text \<open>
  The Go interfaces through which the packages rely on one another, as locales: what a
  \<open>limiter.Store\<close> promises its clients (the HTTP API, the webhook handler, the idle
  collector), and what a \<open>tcshape.RateShaper\<close> promises the store that wraps it. Each is
  interpreted on the model of the code that implements it, in that code's theory. The facts
  proved here hold for every implementation.
\<close>

section \<open>limiter.Store\<close>

record Entry =
  en_Mark :: u32
  en_RateBytesPerSec :: u32

lemma Entry_eta [simp]: "\<lparr>en_Mark = en_Mark e, en_RateBytesPerSec = en_RateBytesPerSec e\<rparr> = e"
  by (cases e) simp

text \<open>A sequence of updates of a store, and running it: an operation that fails leaves the
  rest of the sequence to run, as separate callers do.\<close>

datatype store_op = OpSet u32 u32 | OpDelete u32

fun run_op :: "(u32 \<Rightarrow> u32 \<Rightarrow> 's action) \<Rightarrow> (u32 \<Rightarrow> 's action) \<Rightarrow> store_op \<Rightarrow> 's action" where
  "run_op set_f del_f (OpSet m r) s = set_f m r s"
| "run_op set_f del_f (OpDelete m) s = del_f m s"

text \<open>What a successful operation does to the mapping from marks to rates.\<close>

fun abs_op :: "store_op \<Rightarrow> (u32 \<rightharpoonup> u32) \<Rightarrow> (u32 \<rightharpoonup> u32)" where
  "abs_op (OpSet m r) v = v(m \<mapsto> r)"
| "abs_op (OpDelete m) v = v(m := None)"

fun run_ops :: "(u32 \<Rightarrow> u32 \<Rightarrow> 's action) \<Rightarrow> (u32 \<Rightarrow> 's action) \<Rightarrow> store_op list \<Rightarrow> 's \<Rightarrow> store_op list \<times> 's" where
  "run_ops set_f del_f [] s = ([], s)"
| "run_ops set_f del_f (x # xs) s =
     (case run_op set_f del_f x s of (e, s1) \<Rightarrow>
        (case run_ops set_f del_f xs s1 of (done_ops, s2) \<Rightarrow>
           (if e = None then x # done_ops else done_ops, s2)))"

locale limit_store =
  fixes st_Set :: "u32 \<Rightarrow> u32 \<Rightarrow> 's action"
    and st_Delete :: "u32 \<Rightarrow> 's action"
    and st_Get :: "u32 \<Rightarrow> 's \<Rightarrow> u32 option"
    and st_List :: "'s \<Rightarrow> Entry list go_result"
    and st_inv :: "'s \<Rightarrow> bool"
  assumes Set_inv: "st_inv s \<Longrightarrow> st_Set m r s = (e, s') \<Longrightarrow> st_inv s'"
    and Delete_inv: "st_inv s \<Longrightarrow> st_Delete m s = (e, s') \<Longrightarrow> st_inv s'"
    and Set_ok: "st_inv s \<Longrightarrow> st_Set m r s = (None, s') \<Longrightarrow> st_Get k s' = (if k = m then Some r else st_Get k s)"
    and Set_fail: "st_inv s \<Longrightarrow> st_Set m r s = (Some msg, s') \<Longrightarrow> st_Get k s' = st_Get k s"
    and Delete_ok: "st_inv s \<Longrightarrow> st_Delete m s = (None, s') \<Longrightarrow> st_Get k s' = (if k = m then None else st_Get k s)"
    and Delete_fail: "st_inv s \<Longrightarrow> st_Delete m s = (Some msg, s') \<Longrightarrow> st_Get k s' = st_Get k s"
    and List_distinct: "st_inv s \<Longrightarrow> st_List s = Inr es \<Longrightarrow> distinct (map en_Mark es)"
    and List_Get: "st_inv s \<Longrightarrow> st_List s = Inr es \<Longrightarrow>
      \<lparr>en_Mark = m, en_RateBytesPerSec = r\<rparr> \<in> set es \<longleftrightarrow> st_Get m s = Some r"
begin

abbreviation view :: "'s \<Rightarrow> (u32 \<rightharpoonup> u32)" where
  "view s \<equiv> (\<lambda>m. st_Get m s)"

lemma run_op_inv: "st_inv s \<Longrightarrow> run_op st_Set st_Delete x s = (e, s') \<Longrightarrow> st_inv s'"
  by (cases x) (auto intro: Set_inv Delete_inv)

lemma run_op_view:
  "st_inv s \<Longrightarrow> run_op st_Set st_Delete x s = (e, s') \<Longrightarrow>
     view s' = (if e = None then abs_op x (view s) else view s)"
  by (cases x; cases e) (auto simp: Set_ok Set_fail Delete_ok Delete_fail)

text \<open>The store refines the plain mapping: after any sequence of operations it holds what
  the successful ones, and only they, put there.\<close>

lemma run_ops_refines:
  "st_inv s \<Longrightarrow> run_ops st_Set st_Delete xs s = (done_ops, s') \<Longrightarrow>
     st_inv s' \<and> view s' = fold abs_op done_ops (view s)"
proof (induction xs arbitrary: s done_ops s')
  case (Cons x xs)
  obtain e s1 where 1: "run_op st_Set st_Delete x s = (e, s1)" by fastforce
  obtain d s2 where 2: "run_ops st_Set st_Delete xs s1 = (d, s2)" by fastforce
  have "st_inv s' \<and> view s' = fold abs_op d (view s1)"
    using Cons 1 2 run_op_inv [OF Cons.prems(1) 1] by auto
  with run_op_view [OF Cons.prems(1) 1] Cons.prems(2) 1 2 show ?case by auto
qed simp

text \<open>The list has exactly one entry for each mark with a rate.\<close>

lemma List_view:
  assumes "st_inv s" "st_List s = Inr es"
  shows "map_of (map (\<lambda>e. (en_Mark e, en_RateBytesPerSec e)) es) = view s"
proof
  fix m
  let ?ps = "map (\<lambda>e. (en_Mark e, en_RateBytesPerSec e)) es"
  have d: "distinct (map fst ?ps)" using List_distinct [OF assms] by (simp add: comp_def)
  show "map_of ?ps m = view s m"
  proof (cases "view s m")
    case (Some r)
    then have "(m, r) \<in> set ?ps" using List_Get [OF assms, of m r] by force
    with d Some show ?thesis by simp
  next
    case None
    have "(m, r) \<notin> set ?ps" for r
      using List_Get [OF assms, of m r] None by auto
    then have "m \<notin> fst ` set ?ps" by force
    with None show ?thesis by (simp add: map_of_eq_None_iff)
  qed
qed

lemma List_length:
  assumes "st_inv s" "st_List s = Inr es"
  shows "length es = card (dom (view s))"
proof -
  have "card (dom (view s)) = card (en_Mark ` set es)"
    unfolding List_view [OF assms, symmetric] by (simp add: dom_map_of_conv_image_fst image_image)
  also have "\<dots> = length es"
    using List_distinct [OF assms] by (metis distinct_card length_map set_map)
  finally show ?thesis ..
qed

end

text \<open>A store whose operations do not fail.\<close>

locale total_limit_store = limit_store +
  assumes Set_total: "st_Set m r s = (e, s') \<Longrightarrow> e = None"
    and Delete_total: "st_Delete m s = (e, s') \<Longrightarrow> e = None"
    and List_total: "\<exists>es. st_List s = Inr es"
begin

lemma Set_view:
  "st_inv s \<Longrightarrow> st_Set m r s = (e, s') \<Longrightarrow> \<forall>k. st_Get k s' = (if k = m then Some r else st_Get k s)"
  using Set_ok Set_total by blast

lemma Delete_view:
  "st_inv s \<Longrightarrow> st_Delete m s = (e, s') \<Longrightarrow> \<forall>k. st_Get k s' = (if k = m then None else st_Get k s)"
  using Delete_ok Delete_total by blast

lemma run_ops_total: "run_ops st_Set st_Delete xs s = (done_ops, s') \<Longrightarrow> done_ops = xs"
proof (induction xs arbitrary: s done_ops s')
  case (Cons x xs)
  then show ?case
    by (cases x) (auto split: prod.splits if_splits dest: Set_total Delete_total)
qed simp

end

section \<open>tcshape.RateShaper\<close>

text \<open>\<open>rs_limits\<close> is the limit the enforcement layer gives each mark.\<close>

locale rate_shaper =
  fixes rs_SetRate :: "u32 \<Rightarrow> u32 \<Rightarrow> 'w action"
    and rs_Remove :: "u32 \<Rightarrow> 'w action"
    and rs_limits :: "'w \<Rightarrow> (u32 \<rightharpoonup> u32)"
  assumes SetRate_ok: "rs_SetRate m r w = (None, w') \<Longrightarrow> rs_limits w' = (rs_limits w)(m \<mapsto> r)"
    and SetRate_fail: "rs_SetRate m r w = (Some msg, w') \<Longrightarrow> rs_limits w' = rs_limits w"
    and Remove_ok: "rs_Remove m w = (None, w') \<Longrightarrow> rs_limits w' = (rs_limits w)(m := None)"
    and Remove_fail: "rs_Remove m w = (Some msg, w') \<Longrightarrow> rs_limits w' = rs_limits w"
begin

text \<open>A sequence of calls leaves the limits the successful ones set.\<close>

lemma calls_limits:
  "run_ops rs_SetRate rs_Remove xs w = (done_ops, w') \<Longrightarrow> rs_limits w' = fold abs_op done_ops (rs_limits w)"
proof (induction xs arbitrary: w done_ops w')
  case (Cons x xs)
  obtain e w1 where 1: "run_op rs_SetRate rs_Remove x w = (e, w1)" by fastforce
  then have "rs_limits w1 = (if e = None then abs_op x (rs_limits w) else rs_limits w)"
    by (cases x; cases e) (auto dest: SetRate_ok SetRate_fail Remove_ok Remove_fail)
  with Cons 1 show ?case by (auto split: prod.splits)
qed simp

end

end
