(* ===== verification/Tcshape.thy ===== *)
theory Tcshape
  imports Mark Exec
begin

text \<open>
  \<open>internal/tcshape/tcshape.go\<close>: the Shaper. First the texts it builds (handles, classids,
  rates, bursts, command lines), then what it reads back from \<open>tc -j\<close> (qdiscs, filters,
  classes), and the checks of the layout and the steering. \<open>Shaper_Ops\<close> has the operations that run
  commands.
\<close>

section \<open>The Shaper and the texts it builds\<close>

definition mqHandle :: string where "mqHandle = ''8000:''"
definition steerPref :: string where "steerPref = ''49000''"
definition nftTable :: string where "nftTable = ''xray_speedlimit''"
definition minHTBBurstBytes :: u64 where "minHTBBurstBytes = 2048"

record Shaper =
  sh_iface :: string
  sh_queues :: int
  sh_burstMs :: u64

definition htbHandle :: "u32 \<Rightarrow> string" where
  "htbHandle major = fmt_x (unat major) @ '':''"

definition mqClass :: "u32 \<Rightarrow> string" where
  "mqClass major = mqHandle @ fmt_x (unat major)"

definition notUserMark :: "u32 \<Rightarrow> int \<Rightarrow> go_error" where
  "notUserMark m queues =
     ''mark '' @ fmt_hexp (unat m) @ '' is not a user mark for '' @ fmt_int queues @
     '' queues (want (queue 1-'' @ fmt_int queues @ '')<<16 | minor '' @ fmt_d MinMinor @ ''-65535)''"

definition classIDFor :: "Shaper \<Rightarrow> u32 \<Rightarrow> (string \<times> u32) go_result" where
  "classIDFor s m =
     (case Split m (sh_queues s) of (major, minor, ok) \<Rightarrow>
        if \<not> ok then Inl (notUserMark m (sh_queues s))
        else Inr (fmt_x (unat major) @ '':'' @ fmt_x (unat minor), major))"

definition htbBurstBytes :: "u64 \<Rightarrow> u64 \<Rightarrow> u64" where
  "htbBurstBytes rateBytesPerSec burstMs =
     (if burstMs = 0 then 0 else max (rateBytesPerSec * burstMs div 1000) minHTBBurstBytes)"

definition htbRateArgs :: "u64 \<Rightarrow> u64 \<Rightarrow> string list" where
  "htbRateArgs rateBytesPerSec burstMs =
     (let args = [''htb'', ''rate'', fmt_d (unat (rateBytesPerSec * 8)) @ ''bit''];
          burst = htbBurstBytes rateBytesPerSec burstMs;
          burstArg = fmt_d (unat burst) @ ''b''
      in if 0 < burst then args @ [''burst'', burstArg, ''cburst'', burstArg] else args)"

definition classArgs :: "Shaper \<Rightarrow> string \<Rightarrow> u32 \<Rightarrow> string \<Rightarrow> u64 \<Rightarrow> string list" where
  "classArgs s verb major classID rateBytesPerSec =
     [''class'', verb, ''dev'', sh_iface s, ''parent'', htbHandle major, ''classid'', classID] @
     htbRateArgs rateBytesPerSec (sh_burstMs s)"

section \<open>Reading tc's answers\<close>

record tcQdisc =
  qd_Kind :: string
  qd_Handle :: string
  qd_Parent :: string
  qd_Root :: bool

definition zero_tcQdisc :: tcQdisc where
  "zero_tcQdisc = \<lparr>qd_Kind = [], qd_Handle = [], qd_Parent = [], qd_Root = False\<rparr>"

definition dec_tcQdisc :: "tcQdisc decoder" where
  "dec_tcQdisc = dec_struct False
     [(''kind'', dec_field qd_Kind qd_Kind_update dec_string),
      (''handle'', dec_field qd_Handle qd_Handle_update dec_string),
      (''parent'', dec_field qd_Parent qd_Parent_update dec_string),
      (''root'', dec_field qd_Root qd_Root_update dec_bool)]"

text \<open>The loop of \<open>layoutMatches\<close>; \<open>None\<close> is its early \<open>return false\<close>.\<close>

definition htb_entry_ok :: "int \<Rightarrow> tcQdisc \<Rightarrow> bool" where
  "htb_entry_ok queues q =
     (case ParseUint (TrimSuffix (qd_Handle q) '':'') 16 32 of
        None \<Rightarrow> False
      | Some major \<Rightarrow>
          \<not> (major < 1 \<or> unat (word_of_int queues :: u64) < major \<or>
             qd_Parent q \<noteq> mqClass (of_nat major)))"

fun layout_loop :: "int \<Rightarrow> tcQdisc list \<Rightarrow> bool \<Rightarrow> nat \<Rightarrow> (bool \<times> nat) option" where
  "layout_loop queues [] rootOK htbs = Some (rootOK, htbs)"
| "layout_loop queues (q # qs) rootOK htbs =
     (if qd_Root q \<and> qd_Kind q = ''mq'' \<and> qd_Handle q = mqHandle
      then layout_loop queues qs True htbs
      else if qd_Kind q = ''htb'' then
        (if htb_entry_ok queues q then layout_loop queues qs rootOK (htbs + 1) else None)
      else layout_loop queues qs rootOK htbs)"

definition layoutMatches :: "tcQdisc list \<Rightarrow> int \<Rightarrow> bool" where
  "layoutMatches qdiscs queues =
     (case layout_loop queues qdiscs False 0 of
        None \<Rightarrow> False
      | Some (rootOK, htbs) \<Rightarrow> rootOK \<and> int htbs = queues)"

record tcFwOptions =
  fw_Mark :: string
  fw_Mask :: string

record tcAction =
  ac_Kind :: string
  ac_QueueMapping :: "int option"

record tcFilterOptions =
  fo_Fw :: "tcFwOptions option"
  fo_Actions :: "tcAction list"

record tcFilter =
  fl_Kind :: string
  fl_Pref :: int
  fl_Options :: "tcFilterOptions option"

definition dec_tcFilter :: "tcFilter decoder" where
  "dec_tcFilter = dec_struct False
     [(''kind'', dec_field fl_Kind fl_Kind_update dec_string),
      (''pref'', dec_field fl_Pref fl_Pref_update dec_int),
      (''options'', dec_field fl_Options fl_Options_update
         (dec_ptr \<lparr>fo_Fw = None, fo_Actions = []\<rparr> (dec_struct False
           [(''fw'', dec_field fo_Fw fo_Fw_update
               (dec_ptr \<lparr>fw_Mark = [], fw_Mask = []\<rparr> (dec_struct False
                 [(''mark'', dec_field fw_Mark fw_Mark_update dec_string),
                  (''mask'', dec_field fw_Mask fw_Mask_update dec_string)]))),
            (''actions'', dec_field fo_Actions fo_Actions_update
               (dec_slice \<lparr>ac_Kind = [], ac_QueueMapping = None\<rparr> (dec_struct False
                 [(''kind'', dec_field ac_Kind ac_Kind_update dec_string),
                  (''queue_mapping'', dec_field ac_QueueMapping ac_QueueMapping_update
                     (dec_ptr 0 dec_int))])))])))]"

definition zero_tcFilter :: tcFilter where
  "zero_tcFilter = \<lparr>fl_Kind = [], fl_Pref = 0, fl_Options = None\<rparr>"

text \<open>One step of \<open>steeringMatches\<close> on a filter with options: the queue it steers, or
  \<open>None\<close> where the code returns false (but for the check against the queues seen).\<close>

definition steering_entry :: "int \<Rightarrow> string \<Rightarrow> tcFilterOptions \<Rightarrow> int option" where
  "steering_entry queues kind opts =
     (if kind \<noteq> ''fw'' then None
      else case fo_Fw opts of
        None \<Rightarrow> None
      | Some fw \<Rightarrow> (case fo_Actions opts of
          [a] \<Rightarrow> (case (ParseUint (fw_Mark fw) 0 32, ParseUint (fw_Mask fw) 0 32, ac_QueueMapping a) of
              (Some markVal, Some maskVal, Some qm) \<Rightarrow>
                if (of_nat maskVal :: u64) \<noteq> ucast QueueMask \<or>
                   (of_nat markVal :: u64) AND NOT (ucast QueueMask) \<noteq> 0 \<or> ac_Kind a \<noteq> ''skbedit''
                then None
                else (let q = int (unat (drop_bit 16 (of_nat markVal :: u64))) in
                  if q < 1 \<or> queues < q \<or> qm \<noteq> q - 1 then None else Some q)
            | _ \<Rightarrow> None)
        | _ \<Rightarrow> None))"

fun steering_loop :: "int \<Rightarrow> tcFilter list \<Rightarrow> int list \<Rightarrow> int list option" where
  "steering_loop queues [] seen = Some seen"
| "steering_loop queues (f # fs) seen =
     (case fl_Options f of
        None \<Rightarrow> steering_loop queues fs seen
      | Some opts \<Rightarrow> (case steering_entry queues (fl_Kind f) opts of
          None \<Rightarrow> None
        | Some q \<Rightarrow> if q \<in> set seen then None else steering_loop queues fs (q # seen)))"

definition steeringMatches :: "tcFilter list \<Rightarrow> int \<Rightarrow> bool" where
  "steeringMatches filters queues =
     (case steering_loop queues filters [] of
        None \<Rightarrow> False
      | Some seen \<Rightarrow> int (length seen) = queues)"

record Class =
  cl_Mark :: u32
  cl_RateBytesPerSec :: u32
  cl_Bytes :: u64

record tcClass =
  tcc_Class :: string
  tcc_Handle :: string
  tcc_Rate :: u64
  tcc_StatsBytes :: u64

definition dec_tcClass :: "tcClass decoder" where
  "dec_tcClass = dec_struct False
     [(''class'', dec_field tcc_Class tcc_Class_update dec_string),
      (''handle'', dec_field tcc_Handle tcc_Handle_update dec_string),
      (''rate'', dec_field tcc_Rate tcc_Rate_update dec_uint64),
      (''stats'', dec_struct False
         [(''bytes'', dec_field tcc_StatsBytes tcc_StatsBytes_update dec_uint64)])]"

definition zero_tcClass :: tcClass where
  "zero_tcClass = \<lparr>tcc_Class = [], tcc_Handle = [], tcc_Rate = 0, tcc_StatsBytes = 0\<rparr>"

text \<open>One turn of the loop of \<open>parseClasses\<close>; \<open>None\<close> is its \<open>continue\<close>.\<close>

definition parse_class :: "int \<Rightarrow> tcClass \<Rightarrow> Class option" where
  "parse_class queues c =
     (if tcc_Class c \<noteq> ''htb'' then None
      else case Cut (tcc_Handle c) (CHR '':'') of
        None \<Rightarrow> None
      | Some (majorStr, minorStr) \<Rightarrow>
          (case (ParseUint majorStr 16 16, ParseUint minorStr 16 16) of
             (Some major, Some minor) \<Rightarrow>
               let m = Join (of_nat major) (of_nat minor) in
               (case Split m queues of (_, _, ok) \<Rightarrow>
                  if \<not> ok then None
                  else Some \<lparr>cl_Mark = m,
                    cl_RateBytesPerSec = ucast (min (tcc_Rate c) 4294967295),
                    cl_Bytes = tcc_StatsBytes c\<rparr>)
           | _ \<Rightarrow> None))"

fun keep_classes :: "int \<Rightarrow> tcClass list \<Rightarrow> Class list" where
  "keep_classes queues [] = []"
| "keep_classes queues (c # cs) =
     (case parse_class queues c of
        None \<Rightarrow> keep_classes queues cs
      | Some cl \<Rightarrow> cl # keep_classes queues cs)"

definition parseClasses :: "string \<Rightarrow> int \<Rightarrow> Class list go_result" where
  "parseClasses out queues =
     (case unmarshal_into (dec_slice zero_tcClass dec_tcClass) [] out of
        None \<Rightarrow> Inl ''parsing tc class output''
      | Some raw \<Rightarrow> Inr (keep_classes queues raw))"

section \<open>Classids\<close>

lemma classIDFor_eq:
  "classIDFor s m = (if user_mark (sh_queues s) m
     then Inr (fmt_x (unat m div 65536) @ '':'' @ fmt_x (unat m mod 65536), drop_bit 16 m)
     else Inl (notUserMark m (sh_queues s)))"
  by (simp add: classIDFor_def Split_eq mark_simps)

lemma classIDFor_Inr:
  "classIDFor s m = Inr (cid, major) \<longleftrightarrow> user_mark (sh_queues s) m \<and> major = drop_bit 16 m \<and>
     cid = fmt_x (unat m div 65536) @ '':'' @ fmt_x (unat m mod 65536)"
  by (auto simp: classIDFor_eq)

lemma parse_class_of_handle:
  assumes "unat M < 65536" "unat n < 65536" "tcc_Class c = ''htb''"
    "tcc_Handle c = fmt_x (unat M) @ '':'' @ fmt_x (unat n)"
  shows "parse_class queues c =
    (if user_mark queues (Join M n)
     then Some \<lparr>cl_Mark = Join M n, cl_RateBytesPerSec = ucast (min (tcc_Rate c) 4294967295),
            cl_Bytes = tcc_StatsBytes c\<rparr>
     else None)"
  using assms by (simp add: parse_class_def Split_eq Let_def)

lemma parse_class_user_mark: "parse_class queues c = Some cl \<Longrightarrow> user_mark queues (cl_Mark cl)"
  by (auto simp: parse_class_def Split_eq Let_def split: option.splits prod.splits if_splits)

lemma keep_classes_eq: "keep_classes queues cs = List.map_filter (parse_class queues) cs"
  by (induction cs) (auto simp: List.map_filter_simps split: option.splits)

text \<open>
  C27. The classid \<open>SetRate\<close> and \<open>Remove\<close> hand to tc for a user mark is read back by
  \<open>parseClasses\<close> as the same mark: a class the service created is found again under the
  mark it was created for, whatever its rate and byte count.
\<close>

theorem classID_roundtrip:
  assumes "classIDFor s m = Inr (classID, major)"
  shows "parse_class (sh_queues s) \<lparr>tcc_Class = ''htb'', tcc_Handle = classID, tcc_Rate = rate, tcc_StatsBytes = bytes\<rparr> =
     Some \<lparr>cl_Mark = m, cl_RateBytesPerSec = ucast (min rate 4294967295), cl_Bytes = bytes\<rparr>"
proof -
  let ?c = "\<lparr>tcc_Class = ''htb'', tcc_Handle = classID, tcc_Rate = rate, tcc_StatsBytes = bytes\<rparr>"
  have "user_mark (sh_queues s) m" "tcc_Handle ?c = fmt_x (unat (drop_bit 16 m)) @ '':'' @ fmt_x (unat (m AND 0xffff))"
    using assms by (auto simp: classIDFor_Inr mark_simps)
  then show ?thesis
    by (subst parse_class_of_handle [where M = "drop_bit 16 m" and n = "m AND 0xffff"])
       (auto simp: mark_simps Join_of_Split less_mult_imp_div_less)
qed

theorem classID_roundtrip_witness:
  "parse_class 48 \<lparr>tcc_Class = ''htb'', tcc_Handle = ''17:1909'', tcc_Rate = 15000000, tcc_StatsBytes = 7\<rparr> =
     Some \<lparr>cl_Mark = 0x171909, cl_RateBytesPerSec = ucast (min (15000000 :: u64) 4294967295), cl_Bytes = 7\<rparr>"
proof -
  have "classIDFor \<lparr>sh_iface = ''eth0'', sh_queues = 48, sh_burstMs = 100\<rparr> 0x171909 = Inr (''17:1909'', 0x17)"
    by (simp add: classIDFor_def Split_def Let_def MinMinor_def fmt_eval)
  from classID_roundtrip [OF this, of 15000000 7] show ?thesis by simp
qed



section \<open>Bursts and rates\<close>

lemma htbBurstBytes_exact:
  assumes "unat rate * unat ms < 2 ^ 64"
  shows "unat (htbBurstBytes rate ms) = (if ms = 0 then 0 else max (unat rate * unat ms div 1000) 2048)"
  using assms
  by (auto simp: htbBurstBytes_def minHTBBurstBytes_def max_def word_le_nat_alt unat_word_ariths unat_div)

lemma htbBurstBytes_ge: "ms \<noteq> 0 \<Longrightarrow> 2048 \<le> htbBurstBytes rate ms"
  by (simp add: htbBurstBytes_def minHTBBurstBytes_def)

lemma unat_rate_bits: "unat ((ucast (rate :: u32) :: u64) * 8) = 8 * unat rate"
proof -
  have "unat rate * 8 < 18446744073709551616" using unat_lt2p32 [of rate] by linarith
  then show ?thesis by (simp add: unat_word_ariths unsigned_ucast_eq take_bit_eq_mod mult.commute)
qed

text \<open>
  C37. For a rate the store can hold (a \<open>uint32\<close>) and a burst duration below \<open>2^32\<close> ms, the
  burst \<open>htbBurstBytes\<close> returns is exactly \<open>rate * burstMs / 1000\<close> bytes, floored at 2048, with
  no wrap-around in the 64-bit product; a duration of 0 gives 0, which omits the arguments.
\<close>

theorem htbBurstBytes_user_rate:
  assumes "unat burstMs < 2 ^ 32"
  shows "unat (htbBurstBytes (ucast (rate :: u32)) burstMs) =
    (if burstMs = 0 then 0 else max (unat rate * unat burstMs div 1000) 2048)"
proof -
  have "unat rate * unat burstMs < 2 ^ 32 * 2 ^ 32"
    using assms unat_lt2p32 [of rate] by (intro mult_strict_mono') auto
  then have "unat (ucast rate :: u64) * unat burstMs < 2 ^ 64" by simp
  from htbBurstBytes_exact [OF this] show ?thesis by simp
qed

theorem htbBurstBytes_user_rate_witness:
  "unat (htbBurstBytes (ucast (15000000 :: u32)) 1000) = 15000000"
  using htbBurstBytes_user_rate [of 1000 15000000] by simp

text \<open>Outside that range the product wraps: a burst of \<open>2^44\<close> ms at 1 MiB/s, some \<open>18 * 10^15\<close>
  bytes, comes out as the 2048-byte floor.\<close>

lemma htbBurstBytes_overflow:
  "htbBurstBytes 1048576 17592186044416 = 2048 \<and>
   2048 < unat (1048576 :: u64) * unat (17592186044416 :: u64) div 1000"
  by (simp add: htbBurstBytes_def minHTBBurstBytes_def)

section \<open>Layout\<close>

definition is_root_mq :: "tcQdisc \<Rightarrow> bool" where
  "is_root_mq q \<longleftrightarrow> qd_Root q \<and> qd_Kind q = ''mq'' \<and> qd_Handle q = mqHandle"

lemma layout_loop_eq:
  "layout_loop queues qs r n =
     (if \<forall>q \<in> set qs. qd_Kind q = ''htb'' \<longrightarrow> htb_entry_ok queues q
      then Some (r \<or> (\<exists>q \<in> set qs. is_root_mq q), n + length (filter (\<lambda>q. qd_Kind q = ''htb'') qs))
      else None)"
  by (induction qs arbitrary: r n) (auto simp: is_root_mq_def)

lemma layoutMatches_eq:
  "layoutMatches qs queues \<longleftrightarrow>
     (\<exists>q \<in> set qs. is_root_mq q) \<and>
     (\<forall>q \<in> set qs. qd_Kind q = ''htb'' \<longrightarrow> htb_entry_ok queues q) \<and>
     int (length (filter (\<lambda>q. qd_Kind q = ''htb'') qs)) = queues"
  by (auto simp: layoutMatches_def layout_loop_eq split: if_splits)

lemma htb_entry_ok_handle:
  assumes "qd_Handle q = htbHandle h" "0 \<le> queues" "queues < 2 ^ 32"
  shows "htb_entry_ok queues q \<longleftrightarrow> 1 \<le> unat h \<and> unat h \<le> nat queues \<and> qd_Parent q = mqClass h"
proof -
  have "unat (word_of_int queues :: u64) = nat queues"
    using assms by (simp add: unsigned_of_int take_bit_int_eq_self)
  then show ?thesis
    using assms by (auto simp: htb_entry_ok_def htbHandle_def)
qed

lemma mqClass_inj: "mqClass a = mqClass b \<longleftrightarrow> a = b"
  using fmt_base_inj [of 16 "unat a" "unat b"] by (auto simp: mqClass_def unsigned_word_eqI)

lemma htbHandle_inj: "htbHandle a = htbHandle b \<longleftrightarrow> a = b"
  using fmt_base_inj [of 16 "unat a" "unat b"] by (auto simp: htbHandle_def unsigned_word_eqI)

abbreviation is_htb :: "tcQdisc \<Rightarrow> bool" where
  "is_htb q \<equiv> qd_Kind q = ''htb''"

text \<open>The handle and parent of each queue's HTB, as \<open>buildLayout\<close> gives them to tc.\<close>

definition layout_pairs :: "int \<Rightarrow> (string \<times> string) set" where
  "layout_pairs queues = (\<lambda>k. (htbHandle (of_nat k), mqClass (of_nat k))) ` {1..nat queues}"

lemma of_nat_u32_inj_on: "inj_on (of_nat :: nat \<Rightarrow> u32) {..<2 ^ 32}"
proof (rule inj_onI)
  fix a b :: nat
  assume "a \<in> {..<2 ^ 32}" "b \<in> {..<2 ^ 32}" "(of_nat a :: u32) = of_nat b"
  then have "unat (of_nat a :: u32) = unat (of_nat b :: u32)" "a < 2 ^ 32" "b < 2 ^ 32" by simp_all
  then show "a = b" by (simp add: unsigned_of_nat take_bit_eq_mod)
qed

lemma card_layout_pairs:
  assumes "0 \<le> queues" "queues < 2 ^ 32"
  shows "card (layout_pairs queues) = nat queues"
proof -
  have "inj_on (\<lambda>k. (htbHandle (of_nat k), mqClass (of_nat k))) {1..nat queues}"
    using assms by (auto simp: inj_on_def mqClass_inj dest!: inj_onD [OF of_nat_u32_inj_on])
  then show ?thesis by (simp add: layout_pairs_def card_image)
qed

text \<open>
  C18. \<open>layoutMatches\<close> accepts exactly the layout \<open>buildLayout\<close> builds. For a listing as the
  kernel gives it (HTB handles printed as \<open>%x:\<close>, at most one qdisc under each parent), it
  answers true if and only if the mq root with handle \<open>8000:\<close> is there and the HTB qdiscs are
  exactly those of queues 1 to \<open>queues\<close>, each under its own mq class: none missing, none on
  another queue, none under the wrong parent, whatever other qdiscs are listed and in whatever order.
\<close>

theorem layoutMatches_exact:
  assumes q: "1 \<le> queues" "queues \<le> MaxQueues"
    and handles: "\<forall>q \<in> set qs. is_htb q \<longrightarrow> (\<exists>h. qd_Handle q = htbHandle h)"
    and parents: "distinct (map qd_Parent (filter is_htb qs))"
  shows "layoutMatches qs queues \<longleftrightarrow>
    (\<exists>q \<in> set qs. is_root_mq q) \<and>
    (\<lambda>q. (qd_Handle q, qd_Parent q)) ` {q \<in> set qs. is_htb q} = layout_pairs queues"
proof -
  let ?hp = "\<lambda>q. (qd_Handle q, qd_Parent q)"
  define L where "L = filter is_htb qs"
  have Q: "0 \<le> queues" "queues < 2 ^ 32" using q by (auto simp: MaxQueues_def)
  have fin: "finite (layout_pairs queues)" by (simp add: layout_pairs_def)
  have "distinct (map snd (map ?hp L))" using parents by (simp add: L_def comp_def)
  then have "distinct (map ?hp L)" using distinct_map by blast
  then have card: "card (?hp ` set L) = length L"
    using distinct_card by fastforce
  have ok: "htb_entry_ok queues q \<longleftrightarrow> ?hp q \<in> layout_pairs queues" if "q \<in> set L" for q
  proof -
    from that handles obtain h where h: "qd_Handle q = htbHandle h" by (auto simp: L_def)
    have "?hp q \<in> layout_pairs queues \<longleftrightarrow> 1 \<le> unat h \<and> unat h \<le> nat queues \<and> qd_Parent q = mqClass h"
    proof
      assume "1 \<le> unat h \<and> unat h \<le> nat queues \<and> qd_Parent q = mqClass h"
      then show "?hp q \<in> layout_pairs queues"
        unfolding layout_pairs_def h by (intro image_eqI [of _ _ "unat h"]) auto
    next
      assume "?hp q \<in> layout_pairs queues"
      then show "1 \<le> unat h \<and> unat h \<le> nat queues \<and> qd_Parent q = mqClass h"
        using Q by (auto simp: layout_pairs_def h htbHandle_inj unsigned_of_nat take_bit_eq_mod)
    qed
    then show ?thesis using htb_entry_ok_handle [OF h Q] by simp
  qed
  have "layoutMatches qs queues \<longleftrightarrow> (\<exists>q \<in> set qs. is_root_mq q) \<and>
      ?hp ` set L \<subseteq> layout_pairs queues \<and> length L = nat queues"
    using ok Q by (auto simp: layoutMatches_eq L_def)
  also have "?hp ` set L \<subseteq> layout_pairs queues \<and> length L = nat queues \<longleftrightarrow> ?hp ` set L = layout_pairs queues"
    unfolding card [symmetric] card_layout_pairs [OF Q, symmetric]
  proof
    assume "?hp ` set L \<subseteq> layout_pairs queues \<and> card (?hp ` set L) = card (layout_pairs queues)"
    then show "?hp ` set L = layout_pairs queues" by (intro card_subset_eq fin) simp_all
  qed simp
  finally show ?thesis by (simp only: L_def set_filter)
qed

theorem layoutMatches_exact_witness:
  "layoutMatches
     [\<lparr>qd_Kind = ''htb'', qd_Handle = ''2:'', qd_Parent = ''8000:2'', qd_Root = False\<rparr>,
      \<lparr>qd_Kind = ''mq'', qd_Handle = ''8000:'', qd_Parent = [], qd_Root = True\<rparr>,
      \<lparr>qd_Kind = ''htb'', qd_Handle = ''1:'', qd_Parent = ''8000:1'', qd_Root = False\<rparr>,
      \<lparr>qd_Kind = ''clsact'', qd_Handle = ''ffff:'', qd_Parent = ''ffff:fff1'', qd_Root = False\<rparr>] 2"
  (is "layoutMatches ?qs 2")
proof -
  have h: "htbHandle 1 = ''1:''" "htbHandle 2 = ''2:''" "mqClass 1 = ''8000:1''" "mqClass 2 = ''8000:2''"
    by (simp_all add: htbHandle_def mqClass_def mqHandle_def fmt_eval)
  have "layoutMatches ?qs 2 \<longleftrightarrow> (\<exists>q \<in> set ?qs. is_root_mq q) \<and>
      (\<lambda>q. (qd_Handle q, qd_Parent q)) ` {q \<in> set ?qs. is_htb q} = layout_pairs 2"
  proof (rule layoutMatches_exact)
    show "\<forall>q \<in> set ?qs. is_htb q \<longrightarrow> (\<exists>h. qd_Handle q = htbHandle h)"
      using h(1,2) [symmetric] by auto
  qed (simp_all add: MaxQueues_def)
  moreover have "layout_pairs 2 = {(''1:'', ''8000:1''), (''2:'', ''8000:2'')}"
    using h by (auto simp: layout_pairs_def atLeastAtMostSuc_conv numeral_2_eq_2)
  moreover have "{q \<in> set ?qs. is_htb q} = set (filter is_htb ?qs)" by (simp only: set_filter)
  moreover have "\<dots> =
      {\<lparr>qd_Kind = ''htb'', qd_Handle = ''2:'', qd_Parent = ''8000:2'', qd_Root = False\<rparr>,
       \<lparr>qd_Kind = ''htb'', qd_Handle = ''1:'', qd_Parent = ''8000:1'', qd_Root = False\<rparr>}"
    by simp
  ultimately have "layoutMatches ?qs 2 \<longleftrightarrow> (\<exists>q \<in> set ?qs. is_root_mq q)" by auto
  then show ?thesis by (simp add: is_root_mq_def mqHandle_def)
qed

section \<open>Steering\<close>

definition steer_entries :: "int \<Rightarrow> tcFilter list \<Rightarrow> int option list" where
  "steer_entries queues fs =
     List.map_filter (\<lambda>f. map_option (steering_entry queues (fl_Kind f)) (fl_Options f)) fs"

lemma steering_loop_eq:
  "steering_loop queues fs seen = Some seen' \<longleftrightarrow>
     (\<exists>ks. steer_entries queues fs = map Some ks \<and> distinct ks \<and> set ks \<inter> set seen = {} \<and>
           seen' = rev ks @ seen)"
proof (induction fs arbitrary: seen)
  case Nil
  then show ?case by (auto simp: steer_entries_def List.map_filter_simps)
next
  case (Cons f fs)
  show ?case
  proof (cases "fl_Options f")
    case None
    then show ?thesis using Cons by (simp add: steer_entries_def List.map_filter_simps)
  next
    case (Some opts)
    show ?thesis
      by (auto simp: Some steer_entries_def List.map_filter_simps Cons.IH Cons_eq_map_conv
          split: option.split) 
         
  qed
qed

lemma steering_entry_range: "steering_entry queues k opts = Some q \<Longrightarrow> 1 \<le> q \<and> q \<le> queues"
  by (auto simp: steering_entry_def Let_def split: option.splits list.splits if_splits)

lemma steer_entries_range: "Some q \<in> set (steer_entries queues fs) \<Longrightarrow> 1 \<le> q \<and> q \<le> queues"
  unfolding steer_entries_def
  by (induction fs)
     (auto simp: List.map_filter_simps dest: steering_entry_range [OF sym] split: option.splits)



text \<open>The options tc reports for the filter \<open>ensureSteering\<close> installs for queue \<open>q\<close>.\<close>

definition installed_options :: "u32 \<Rightarrow> tcFilterOptions" where
  "installed_options q =
     \<lparr>fo_Fw = Some \<lparr>fw_Mark = fmt_hexp (unat (Join q 0)), fw_Mask = fmt_hexp (unat QueueMask)\<rparr>,
      fo_Actions = [\<lparr>ac_Kind = ''skbedit'', ac_QueueMapping = Some (int (unat (q - 1)))\<rparr>]\<rparr>"

lemma unat_QueueMask: "unat QueueMask = 0xff0000"
  by (simp add: QueueMask_def)

lemma QueueMask_bits: "(ucast QueueMask :: u64) = push_bit 16 (mask 8)"
  by (simp add: QueueMask_def mask_eq_exp_minus_1 push_bit_eq_mult)

lemma queue_field_and_not_mask:
  assumes "k < 256"
  shows "(of_nat (k * 65536) :: u64) AND NOT (ucast QueueMask) = 0"
proof -
  have "(of_nat (k * 65536) :: u64) = push_bit 16 (of_nat k)"
    by (simp add: push_bit_eq_mult mult.commute)
  also have "(of_nat k :: u64) = take_bit 8 (of_nat k)"
    using assms by (simp only: take_bit_of_nat) (simp add: take_bit_nat_eq_self)
  finally have "(of_nat (k * 65536) :: u64) = push_bit 16 (take_bit 8 (of_nat k))" .
  then show ?thesis
    unfolding QueueMask_bits by (intro bit_word_eqI) (auto simp: bit_simps)
qed

lemma steering_entry_installed:
  assumes "1 \<le> unat q" "unat q \<le> 255" "int (unat q) \<le> queues"
  shows "steering_entry queues ''fw'' (installed_options q) = Some (int (unat q))"
proof -
  have j: "unat (Join q 0) = unat q * 65536" using assms by (simp add: unat_Join)
  have lt: "unat q * 65536 < 2 ^ 32" using assms by simp
  have q1: "unat (q - 1) = unat q - 1" using assms by (simp add: unat_sub_if_size word_le_nat_alt)
  have w: "unat (of_nat (unat q * 65536) :: u64) = unat q * 65536" 
    using assms by (subst unsigned_of_nat) (simp add: take_bit_eq_mod)
  have d: "unat (drop_bit 16 (of_nat (unat q * 65536) :: u64)) = unat q"
    using w by (simp add: drop_bit_eq_div unat_div)
  have m: "(of_nat 0xff0000 :: u64) = ucast QueueMask" by (simp add: QueueMask_def)
  have z: "(of_nat (unat q * 65536) :: u64) AND NOT (ucast QueueMask) = 0"
    using assms by (intro queue_field_and_not_mask) simp
  have "1 \<le> int (unat q)" using assms(1) by linarith
  then show ?thesis
    using assms d z m lt q1 unfolding steering_entry_def installed_options_def
    by (simp add: j unat_QueueMask Let_def of_nat_diff del: of_nat_mult)
qed
end
