(* ===== verification/Shaper_Ops.thy ===== *)
theory Shaper_Ops
  imports Tcshape Interfaces
begin

text \<open>
  The operations of \<open>internal/tcshape/tcshape.go\<close> that run commands: the layout
  (\<open>LayoutExists\<close>, \<open>EnsureRoot\<close>, \<open>buildLayout\<close>, \<open>ensureSteering\<close>,
  \<open>ensureConnmarkRestore\<close>) and the per-user classes (\<open>SetRate\<close>, \<open>Remove\<close>, \<open>Classes\<close>).
  Each takes the environment and returns its result with the environment after the commands.
  The text an error of \<open>encoding/json\<close> adds to a message is left out.
\<close>

section \<open>Operations\<close>

definition qdiscs :: "Shaper \<Rightarrow> os \<Rightarrow> tcQdisc list go_result \<times> os" where
  "qdiscs s os =
     (case runJSON ''tc'' [''-j'', ''qdisc'', ''show'', ''dev'', sh_iface s] os of
        (Inl e, os') \<Rightarrow> (Inl e, os')
      | (Inr out, os') \<Rightarrow>
          (case unmarshal_into (dec_slice zero_tcQdisc dec_tcQdisc) [] out of
             None \<Rightarrow> (Inl ''parsing tc qdisc output'', os')
           | Some qs \<Rightarrow> (Inr qs, os')))"

definition LayoutExists :: "Shaper \<Rightarrow> os \<Rightarrow> bool go_result \<times> os" where
  "LayoutExists s os =
     (case qdiscs s os of
        (Inl e, os') \<Rightarrow> (Inl e, os')
      | (Inr qs, os') \<Rightarrow> (Inr (layoutMatches qs (sh_queues s)), os'))"

text \<open>The values of \<open>for q := uint32(1); q <= uint32(s.queues); q++\<close>.\<close>

definition queue_range :: "int \<Rightarrow> u32 list" where
  "queue_range queues = map of_nat [1..<Suc (unat (word_of_int queues :: u32))]"

text \<open>One turn of the loop of \<open>buildLayout\<close>, for queue \<open>q\<close>.\<close>

definition build_queue :: "Shaper \<Rightarrow> u64 \<Rightarrow> u32 \<Rightarrow> os action" where
  "build_queue s defaultRateBps q =
     (let handle = htbHandle q;
          txq = fmt_d (unat (q - 1)) @ '' on '' @ sh_iface s @ '': '' in
      and_then
        (tc_run ''tc'' [''qdisc'', ''add'', ''dev'', sh_iface s, ''parent'', mqClass q,
           ''handle'', handle, ''htb'', ''default'', ''1''])
        (\<lambda>e. ''creating htb qdisc for TX queue '' @ txq @ e)
      (and_then
        (tc_run ''tc'' (classArgs s ''add'' q (handle @ ''1'') defaultRateBps))
        (\<lambda>e. ''creating default htb class for TX queue '' @ txq @ e)
      (and_then
        (tc_run ''tc'' [''filter'', ''add'', ''dev'', sh_iface s, ''parent'', handle,
           ''protocol'', ''all'', ''prio'', ''1'', ''fw''])
        (\<lambda>e. ''creating fw classifier for TX queue '' @ txq @ e)
        (\<lambda>os. (None, os)))))"

fun build_queues :: "Shaper \<Rightarrow> u64 \<Rightarrow> u32 list \<Rightarrow> os action" where
  "build_queues s defaultRateBps [] os = (None, os)"
| "build_queues s defaultRateBps (q # qs) os =
     and_then (build_queue s defaultRateBps q) (\<lambda>e. e) (build_queues s defaultRateBps qs) os"

definition buildLayout :: "Shaper \<Rightarrow> u64 \<Rightarrow> os action" where
  "buildLayout s defaultRateMbit os =
     (let os1 = snd (os_exec (plain_command ''tc'' [''qdisc'', ''del'', ''dev'', sh_iface s, ''root'']) os)
      in and_then
           (tc_run ''tc'' [''qdisc'', ''add'', ''dev'', sh_iface s, ''root'', ''handle'', mqHandle, ''mq''])
           (\<lambda>e. ''creating root mq qdisc on '' @ sh_iface s @ '': '' @ e)
           (build_queues s (defaultRateMbit * 1000000 div 8) (queue_range (sh_queues s))) os1)"

text \<open>The filter \<open>ensureSteering\<close> installs for queue \<open>q\<close>.\<close>

definition steer_handle :: "u32 \<Rightarrow> string" where
  "steer_handle q = fmt_hexp (unat (Join q 0)) @ ''/'' @ fmt_hexp (unat QueueMask)"

definition steer_queue :: "Shaper \<Rightarrow> u32 \<Rightarrow> os action" where
  "steer_queue s q = and_then
     (tc_run ''tc'' [''filter'', ''add'', ''dev'', sh_iface s, ''egress'', ''protocol'', ''all'',
        ''pref'', steerPref, ''handle'', steer_handle q, ''fw'',
        ''action'', ''skbedit'', ''queue_mapping'', fmt_d (unat (q - 1))])
     (\<lambda>e. ''creating steering filter for TX queue '' @ fmt_d (unat (q - 1)) @ '' on '' @ sh_iface s @ '': '' @ e)
     (\<lambda>os. (None, os))"

fun steer_queues :: "Shaper \<Rightarrow> u32 list \<Rightarrow> os action" where
  "steer_queues s [] os = (None, os)"
| "steer_queues s (q # qs) os = and_then (steer_queue s q) (\<lambda>e. e) (steer_queues s qs) os"

definition ensureSteering :: "Shaper \<Rightarrow> os action" where
  "ensureSteering s os =
     (case qdiscs s os of
        (Inl e, os1) \<Rightarrow> (Some e, os1)
      | (Inr qs, os1) \<Rightarrow>
          if \<not> list_ex (\<lambda>q. qd_Kind q = ''clsact'') qs then
            and_then (tc_run ''tc'' [''qdisc'', ''add'', ''dev'', sh_iface s, ''clsact''])
              (\<lambda>e. ''creating clsact qdisc on '' @ sh_iface s @ '': '' @ e)
              (steer_queues s (queue_range (sh_queues s))) os1
          else
            (case runJSON ''tc'' [''-j'', ''filter'', ''show'', ''dev'', sh_iface s, ''egress'',
                     ''pref'', steerPref] os1 of
               (Inl e, os2) \<Rightarrow> (Some e, os2)
             | (Inr out, os2) \<Rightarrow>
                 (case unmarshal_into (dec_slice zero_tcFilter dec_tcFilter) [] out of
                    None \<Rightarrow> (Some ''parsing tc filter output'', os2)
                  | Some filters \<Rightarrow>
                      if steeringMatches filters (sh_queues s) then (None, os2)
                      else if filters \<noteq> [] then
                        and_then (tc_run ''tc'' [''filter'', ''del'', ''dev'', sh_iface s, ''egress'',
                            ''pref'', steerPref])
                          (\<lambda>e. ''removing old steering filters on '' @ sh_iface s @ '': '' @ e)
                          (steer_queues s (queue_range (sh_queues s))) os2
                      else steer_queues s (queue_range (sh_queues s)) os2)))"

definition nl :: string where "nl = [CHR 0x0A]"
definition tab :: string where "tab = [CHR 0x09]"

definition connmarkRestoreRuleset :: string where
  "connmarkRestoreRuleset =
     ''table inet '' @ nftTable @ nl @
     ''delete table inet '' @ nftTable @ nl @
     ''table inet '' @ nftTable @ '' {'' @ nl @
     tab @ ''chain postrouting {'' @ nl @
     tab @ tab @ ''type filter hook postrouting priority mangle; policy accept;'' @ nl @
     tab @ tab @ ''ct mark != 0 meta mark set ct mark'' @ nl @
     tab @ ''}'' @ nl @ ''}'' @ nl"

definition ensureConnmarkRestore :: "os action" where
  "ensureConnmarkRestore os =
     (case os_exec \<lparr>cmd_name = ''nft'', cmd_args = [''-f'', ''-''],
                    cmd_stdin = connmarkRestoreRuleset\<rparr> os of
        (r, os') \<Rightarrow> (case cr_error r of
            Some e \<Rightarrow> (Some (''nft -f -: '' @ e @ '': '' @ TrimSpace (cr_combined r)), os')
          | None \<Rightarrow> (None, os')))"

definition EnsureRoot :: "Shaper \<Rightarrow> bool \<Rightarrow> u64 \<Rightarrow> os action" where
  "EnsureRoot s layoutExists defaultRateMbit =
     and_then (if \<not> layoutExists then buildLayout s defaultRateMbit else (\<lambda>os. (None, os))) (\<lambda>e. e)
     (and_then (ensureSteering s) (\<lambda>e. e)
     (and_then ensureConnmarkRestore (\<lambda>e. ''setting up conntrack mark restore: '' @ e)
     (\<lambda>os. (None, os))))"

definition SetRate :: "Shaper \<Rightarrow> u32 \<Rightarrow> u32 \<Rightarrow> os action" where
  "SetRate s m rateBytesPerSec os =
     (case classIDFor s m of
        Inl e \<Rightarrow> (Some e, os)
      | Inr (classID, major) \<Rightarrow>
          and_then (tc_run ''tc'' (classArgs s ''replace'' major classID (ucast rateBytesPerSec)))
            (\<lambda>e. ''setting htb rate for mark '' @ fmt_hexp (unat m) @ '' on '' @ sh_iface s @ '': '' @ e)
            (\<lambda>os. (None, os)) os)"

definition Remove :: "Shaper \<Rightarrow> u32 \<Rightarrow> os action" where
  "Remove s m os =
     (case classIDFor s m of
        Inl _ \<Rightarrow> (None, os)
      | Inr (classID, _) \<Rightarrow>
          (case os_exec (plain_command ''tc''
                  [''class'', ''del'', ''dev'', sh_iface s, ''classid'', classID]) os of
             (r, os') \<Rightarrow> (case cr_error r of
                 None \<Rightarrow> (None, os')
               | Some e \<Rightarrow>
                   if \<not> Contains (cr_combined r) ''No such file or directory''
                   then (Some (''removing htb class for mark '' @ fmt_hexp (unat m) @ '' on '' @
                          sh_iface s @ '': '' @ e @ '': '' @ TrimSpace (cr_combined r)), os')
                   else (None, os'))))"

definition Classes :: "Shaper \<Rightarrow> os \<Rightarrow> Class list go_result \<times> os" where
  "Classes s os =
     (case runJSON ''tc'' [''-j'', ''-s'', ''class'', ''show'', ''dev'', sh_iface s] os of
        (Inl e, os') \<Rightarrow> (Inl e, os')
      | (Inr out, os') \<Rightarrow> (parseClasses out (sh_queues s), os'))"

section \<open>Command lists\<close>

text \<open>Running commands until the first one fails: whether all succeeded, and the environment.\<close>

fun run_cmds :: "command list \<Rightarrow> os \<Rightarrow> bool \<times> os" where
  "run_cmds [] os = (True, os)"
| "run_cmds (c # cs) os =
     (case os_exec c os of (r, os') \<Rightarrow> if cmd_ok r then run_cmds cs os' else (False, os'))"

definition succeeded :: "err_opt \<times> 's \<Rightarrow> bool \<times> 's" where
  "succeeded x = (fst x = None, snd x)"

lemma run_cmds_append:
  "run_cmds (xs @ ys) os =
     (case run_cmds xs os of (ok, os') \<Rightarrow> if ok then run_cmds ys os' else (False, os'))"
  by (induction xs arbitrary: os) (auto split: prod.split)

lemma succeeded_None [simp]: "succeeded (None, os) = (True, os)"
  by (simp add: succeeded_def)

lemma succeeded_and_then:
  "succeeded (and_then a wrap b os) =
     (case succeeded (a os) of (ok, os') \<Rightarrow> if ok then succeeded (b os') else (False, os'))"
  by (auto simp: succeeded_def and_then_def split: prod.split option.split)

lemma succeeded_tc_run: "succeeded (tc_run name args os) = run_cmds [plain_command name args] os"
  by (auto simp: succeeded_def tc_run_def cmd_ok_def split: prod.split option.split)

abbreviation tc_cmd :: "string list \<Rightarrow> command" where
  "tc_cmd args \<equiv> plain_command ''tc'' args"

text \<open>The commands of one queue and of the whole layout, and the steering filters.\<close>

definition queue_commands :: "Shaper \<Rightarrow> u64 \<Rightarrow> u32 \<Rightarrow> command list" where
  "queue_commands s rate q =
     [tc_cmd [''qdisc'', ''add'', ''dev'', sh_iface s, ''parent'', mqClass q,
        ''handle'', htbHandle q, ''htb'', ''default'', ''1''],
      tc_cmd (classArgs s ''add'' q (htbHandle q @ ''1'') rate),
      tc_cmd [''filter'', ''add'', ''dev'', sh_iface s, ''parent'', htbHandle q,
        ''protocol'', ''all'', ''prio'', ''1'', ''fw'']]"

definition layout_commands :: "Shaper \<Rightarrow> u64 \<Rightarrow> command list" where
  "layout_commands s mbit =
     tc_cmd [''qdisc'', ''add'', ''dev'', sh_iface s, ''root'', ''handle'', mqHandle, ''mq''] #
     concat (map (queue_commands s (mbit * 1000000 div 8)) (queue_range (sh_queues s)))"

definition steer_command :: "Shaper \<Rightarrow> u32 \<Rightarrow> command" where
  "steer_command s q = tc_cmd [''filter'', ''add'', ''dev'', sh_iface s, ''egress'', ''protocol'', ''all'',
     ''pref'', steerPref, ''handle'', steer_handle q, ''fw'',
     ''action'', ''skbedit'', ''queue_mapping'', fmt_d (unat (q - 1))]"

lemma succeeded_build_queue: "succeeded (build_queue s rate q os) = run_cmds (queue_commands s rate q) os"
  by (auto simp: build_queue_def queue_commands_def succeeded_and_then succeeded_tc_run Let_def
      split: prod.split)

lemma succeeded_build_queues:
  "succeeded (build_queues s rate qs os) = run_cmds (concat (map (queue_commands s rate) qs)) os"
  by (induction qs arbitrary: os)
     (auto simp: succeeded_and_then succeeded_build_queue run_cmds_append split: prod.split)

lemma succeeded_steer_queues: "succeeded (steer_queues s qs os) = run_cmds (map (steer_command s) qs) os"
  by (induction qs arbitrary: os)
     (auto simp: steer_queue_def steer_command_def succeeded_and_then succeeded_tc_run split: prod.split)

text \<open>
  \<open>buildLayout\<close> deletes the root qdisc, ignoring whether that worked, and then runs exactly
  the commands of \<open>layout_commands\<close> in order (the mq root, then for each queue its HTB, its default
  class and its fw classifier), stopping at the first that fails: it returns nil if and only if all
  of them succeeded, and leaves the environment the list of commands leaves.
\<close>

lemma buildLayout_runs:
  "succeeded (buildLayout s mbit os) =
     run_cmds (layout_commands s mbit)
       (snd (os_exec (tc_cmd [''qdisc'', ''del'', ''dev'', sh_iface s, ''root'']) os))"
  by (simp add: buildLayout_def layout_commands_def Let_def succeeded_and_then succeeded_tc_run
      succeeded_build_queues split: prod.split)

lemma run_cmds_extends:
  assumes "run_cmds cs os = (ok, os')"
  obtains t where "extends os t os'" "map fst t = take (length t) cs"
    "ok \<longleftrightarrow> list_all (\<lambda>x. cmd_ok (snd x)) t \<and> length t = length cs"
    "\<not> ok \<Longrightarrow> t \<noteq> [] \<and> list_all (\<lambda>x. cmd_ok (snd x)) (butlast t) \<and> \<not> cmd_ok (snd (last t))"
proof -
  have "\<exists>t. extends os t os' \<and> map fst t = take (length t) cs \<and>
    (ok \<longleftrightarrow> list_all (\<lambda>x. cmd_ok (snd x)) t \<and> length t = length cs) \<and>
    (\<not> ok \<longrightarrow> t \<noteq> [] \<and> list_all (\<lambda>x. cmd_ok (snd x)) (butlast t) \<and> \<not> cmd_ok (snd (last t)))"
    using assms
  proof (induction cs arbitrary: os)
    case Nil
    then show ?case by (intro exI [of _ "[]"]) (auto intro: ext_refl)
  next
    case (Cons c cs)
    obtain r os1 where e: "os_exec c os = (r, os1)" by fastforce
    show ?case
    proof (cases "cmd_ok r")
      case True
      with Cons.prems e have "run_cmds cs os1 = (ok, os')" by simp
      from Cons.IH [OF this] obtain t where t: "extends os1 t os'" "map fst t = take (length t) cs"
        "ok \<longleftrightarrow> list_all (\<lambda>x. cmd_ok (snd x)) t \<and> length t = length cs"
        "\<not> ok \<longrightarrow> t \<noteq> [] \<and> list_all (\<lambda>x. cmd_ok (snd x)) (butlast t) \<and> \<not> cmd_ok (snd (last t))"
        by blast
      with extends_trans [OF extends_exec [OF e] t(1)] True show ?thesis
        by (intro exI [of _ "(c, r) # t"]) auto
    next
      case False
      with Cons.prems e extends_exec [OF e] show ?thesis
        by (intro exI [of _ "[(c, r)]"]) auto
    qed
  qed
  then show ?thesis using that by blast
qed

section \<open>Classes: what is enforced\<close>

text \<open>The mark a classid names, and the rate in bytes per second of a text \<open>"<n>bit"\<close>.\<close>

definition mark_of_classid :: "string \<Rightarrow> u32 option" where
  "mark_of_classid cid = (case Cut cid (CHR '':'') of
     None \<Rightarrow> None
   | Some (a, b) \<Rightarrow> (case (ParseUint a 16 16, ParseUint b 16 16) of
       (Some M, Some n) \<Rightarrow> Some (Join (of_nat M) (of_nat n))
     | _ \<Rightarrow> None))"

definition rate_of_arg :: "string \<Rightarrow> u32 option" where
  "rate_of_arg a = map_option (\<lambda>n. of_nat (n div 8)) (ParseUint (TrimSuffix a ''bit'') 10 64)"

text \<open>What one command did to the HTB classes of an interface, as tc-htb(8) has it:
  \<open>class add\<close> and \<open>class replace\<close> give the class its rate, \<open>class del\<close> removes it (and
  a class that is not there is gone too), deleting the root qdisc removes every class, a
  command that failed changes nothing, and no other command touches a class.\<close>

definition class_effect :: "string \<Rightarrow> command \<times> cmd_result \<Rightarrow> (u32 \<rightharpoonup> u32) \<Rightarrow> (u32 \<rightharpoonup> u32)" where
  "class_effect iface x view = (case x of (c, r) \<Rightarrow>
     if cmd_name c \<noteq> ''tc'' then view
     else case cmd_args c of
       [a1, a2, a3, a4, a5] \<Rightarrow>
         if [a1, a2, a3, a4, a5] = [''qdisc'', ''del'', ''dev'', iface, ''root''] \<and> cmd_ok r
         then Map.empty else view
     | [a1, a2, a3, a4, a5, a6] \<Rightarrow>
         if [a1, a2, a3, a4, a5] = [''class'', ''del'', ''dev'', iface, ''classid''] \<and>
            (cmd_ok r \<or> Contains (cr_combined r) ''No such file or directory'')
         then (case mark_of_classid a6 of Some m \<Rightarrow> view(m := None) | None \<Rightarrow> view) else view
     | a1 # a2 # a3 # a4 # a5 # a6 # a7 # cid # a9 # a10 # rate # _ \<Rightarrow>
         if [a1, a3, a4, a5, a7, a9, a10] = [''class'', ''dev'', iface, ''parent'', ''classid'', ''htb'', ''rate''] \<and>
            (a2 = ''add'' \<or> a2 = ''replace'') \<and> cmd_ok r
         then (case (mark_of_classid cid, rate_of_arg rate) of
             (Some m, Some b) \<Rightarrow> view(m \<mapsto> b) | _ \<Rightarrow> view) else view
     | _ \<Rightarrow> view)"

text \<open>The limit enforced for each user mark after a trace, from the classes \<open>v0\<close> that were
  there before it.\<close>

definition enforced :: "Shaper \<Rightarrow> (u32 \<rightharpoonup> u32) \<Rightarrow> os \<Rightarrow> (u32 \<rightharpoonup> u32)" where
  "enforced s v0 os = (\<lambda>m. if user_mark (sh_queues s) m
     then fold (class_effect (sh_iface s)) (os_trace os) v0 m else None)"

lemma mark_of_classid_roundtrip:
  "mark_of_classid (fmt_x (unat (m :: u32) div 65536) @ '':'' @ fmt_x (unat m mod 65536)) = Some m"
proof -
  have "unat m div 65536 < 2 ^ 16" using unat_lt2p32 [of m] by (simp add: less_mult_imp_div_less)
  moreover have "Join (of_nat (unat m div 65536)) (of_nat (unat m mod 65536)) = m"
    using Join_of_Split [of m] by (simp add: mark_simps [symmetric])
  ultimately show ?thesis by (simp add: mark_of_classid_def)
qed

lemma rate_of_arg_roundtrip: "rate_of_arg (fmt_d (8 * unat (r :: u32)) @ ''bit'') = Some r"
proof -
  have "8 * unat r < 18446744073709551616" using unat_lt2p32 [of r] by linarith
  then have "ParseUint (fmt_d (8 * unat r)) 10 64 = Some (8 * unat r)" by simp
  then show ?thesis by (simp add: rate_of_arg_def)
qed

lemma SetRate_cases:
  assumes "SetRate s m r os = (e, os')"
  obtains (bad) "\<not> user_mark (sh_queues s) m" "e = Some (notUserMark m (sh_queues s))" "os' = os"
  | (ran) res cid where "user_mark (sh_queues s) m"
      "cid = fmt_x (unat m div 65536) @ '':'' @ fmt_x (unat m mod 65536)"
      "extends os [(tc_cmd (classArgs s ''replace'' (drop_bit 16 m) cid (ucast r)), res)] os'"
      "e = None \<longleftrightarrow> cmd_ok res"
proof (cases "user_mark (sh_queues s) m")
  case False
  with assms bad show ?thesis by (simp add: SetRate_def classIDFor_eq)
next
  case True
  define cid where "cid = fmt_x (unat m div 65536) @ '':'' @ fmt_x (unat m mod 65536)"
  obtain e1 where "tc_run ''tc'' (classArgs s ''replace'' (drop_bit 16 m) cid (ucast r)) os = (e1, os')"
      "e = None \<longleftrightarrow> e1 = None"
    using assms True
    by (auto simp: SetRate_def classIDFor_eq and_then_def cid_def split: prod.splits option.splits)
  with ran [OF True cid_def] show ?thesis by (auto elim!: tc_run_cases)
qed

lemma Remove_cases:
  assumes "Remove s m os = (e, os')"
  obtains (bad) "\<not> user_mark (sh_queues s) m" "e = None" "os' = os"
  | (ran) res cid where "user_mark (sh_queues s) m"
      "cid = fmt_x (unat m div 65536) @ '':'' @ fmt_x (unat m mod 65536)"
      "extends os [(tc_cmd [''class'', ''del'', ''dev'', sh_iface s, ''classid'', cid], res)] os'"
      "e = None \<longleftrightarrow> cmd_ok res \<or> Contains (cr_combined res) ''No such file or directory''"
proof (cases "user_mark (sh_queues s) m")
  case False
  with assms bad show ?thesis by (simp add: Remove_def classIDFor_eq)
next
  case True
  define cid where "cid = fmt_x (unat m div 65536) @ '':'' @ fmt_x (unat m mod 65536)"
  obtain res where res: "os_exec (tc_cmd [''class'', ''del'', ''dev'', sh_iface s, ''classid'', cid]) os = (res, os')"
    using assms True by (auto simp: Remove_def classIDFor_eq cid_def split: prod.splits option.splits if_splits)
  then have "e = None \<longleftrightarrow> cmd_ok res \<or> Contains (cr_combined res) ''No such file or directory''"
    using assms True
    by (auto simp: Remove_def classIDFor_eq cid_def cmd_ok_def split: prod.splits option.splits if_splits)
  with ran [OF True cid_def extends_exec [OF res]] show ?thesis .
qed

lemma enforced_extends:
  "extends os t os' \<Longrightarrow> enforced s v0 os' =
     (\<lambda>m. if user_mark (sh_queues s) m
          then fold (class_effect (sh_iface s)) t (fold (class_effect (sh_iface s)) (os_trace os) v0) m
          else None)"
  by (auto simp: enforced_def dest!: extends_trace)

lemma class_effect_set:
  "mark_of_classid cid = Some m \<Longrightarrow>
   class_effect (sh_iface s) (tc_cmd (classArgs s ''replace'' major cid (ucast r)), res) v =
     (if cmd_ok res then v(m \<mapsto> r) else v)"
  by (simp add: class_effect_def classArgs_def htbRateArgs_def Let_def unat_rate_bits
      rate_of_arg_roundtrip)

lemma class_effect_del:
  "mark_of_classid cid = Some m \<Longrightarrow>
   class_effect iface (tc_cmd [''class'', ''del'', ''dev'', iface, ''classid'', cid], res) v =
     (if cmd_ok res \<or> Contains (cr_combined res) ''No such file or directory'' then v(m := None) else v)"
  by (simp add: class_effect_def)

section \<open>The Shaper as a RateShaper\<close>

lemma SetRate_enforced:
  assumes "SetRate s m r os = (e, os')"
  shows "enforced s v0 os' = (if e = None then (enforced s v0 os)(m \<mapsto> r) else enforced s v0 os)"
  using assms
proof (cases rule: SetRate_cases)
  case (ran res cid)
  show ?thesis
    unfolding enforced_extends [OF ran(3)] ran(4)
    using ran(1) mark_of_classid_roundtrip [of m, folded ran(2)]
    by (auto simp: class_effect_set enforced_def)
qed simp

lemma Remove_enforced:
  assumes "Remove s m os = (e, os')"
  shows "enforced s v0 os' = (if e = None then (enforced s v0 os)(m := None) else enforced s v0 os)"
  using assms
proof (cases rule: Remove_cases)
  case (ran res cid)
  show ?thesis
    unfolding enforced_extends [OF ran(3)] ran(4)
    using mark_of_classid_roundtrip [of m, folded ran(2)]
    by (auto simp: class_effect_del enforced_def)
qed (auto simp: enforced_def)

interpretation shaper: rate_shaper "SetRate s" "Remove s" "enforced s v0" for s v0
  by unfold_locales (auto dest!: SetRate_enforced [where ?v0.0 = v0] Remove_enforced [where ?v0.0 = v0])

section \<open>EnsureRoot\<close>

abbreviation all_ok :: "exec_trace \<Rightarrow> bool" where
  "all_ok t \<equiv> list_all (\<lambda>x. cmd_ok (snd x)) t"

abbreviation qdisc_show :: "Shaper \<Rightarrow> command" where
  "qdisc_show s \<equiv> tc_cmd [''-j'', ''qdisc'', ''show'', ''dev'', sh_iface s]"

abbreviation filter_show :: "Shaper \<Rightarrow> command" where
  "filter_show s \<equiv> tc_cmd [''-j'', ''filter'', ''show'', ''dev'', sh_iface s, ''egress'', ''pref'', steerPref]"

abbreviation nft_restore :: command where
  "nft_restore \<equiv> \<lparr>cmd_name = ''nft'', cmd_args = [''-f'', ''-''], cmd_stdin = connmarkRestoreRuleset\<rparr>"

text \<open>The filters a successful \<open>tc -j filter show\<close> reports.\<close>

definition filters_of :: "cmd_result \<Rightarrow> tcFilter list option" where
  "filters_of r = unmarshal_into (dec_slice zero_tcFilter dec_tcFilter) [] (cr_stdout r)"

definition qdiscs_of :: "cmd_result \<Rightarrow> tcQdisc list option" where
  "qdiscs_of r = unmarshal_into (dec_slice zero_tcQdisc dec_tcQdisc) [] (cr_stdout r)"

lemma succeeded_trace:
  assumes "succeeded x = run_cmds cs os" "x = (None, os')"
  obtains t where "extends os t os'" "map fst t = cs" "all_ok t"
proof -
  have "run_cmds cs os = (True, os')" using assms by simp
  then obtain t where "extends os t os'" "map fst t = take (length t) cs" "True \<longleftrightarrow> all_ok t \<and> length t = length cs"
    by (rule run_cmds_extends) blast
  with that [of t] show ?thesis by simp
qed

lemma qdiscs_Inr:
  assumes "qdiscs s os = (Inr qs, os')"
  obtains r where "extends os [(qdisc_show s, r)] os'" "cmd_ok r" "qdiscs_of r = Some qs"
  using assms
  by (auto simp: qdiscs_def qdiscs_of_def split: prod.splits sum.splits option.splits if_splits elim!: runJSON_cases)

text \<open>A successful \<open>ensureSteering\<close> saw the right filters, or installed every one of them.\<close>

definition steering_done :: "Shaper \<Rightarrow> exec_trace \<Rightarrow> bool" where
  "steering_done s t \<longleftrightarrow>
     (\<exists>r1 r2 fs. t = [(qdisc_show s, r1), (filter_show s, r2)] \<and> filters_of r2 = Some fs \<and>
        steeringMatches fs (sh_queues s)) \<or>
     (\<exists>pre post. t = pre @ post \<and> map fst post = map (steer_command s) (queue_range (sh_queues s)) \<and>
        all_ok post)"

lemma steer_queues_None:
  assumes "steer_queues s qs os = (None, os')"
  obtains t where "extends os t os'" "map fst t = map (steer_command s) qs" "all_ok t"
  using succeeded_trace [OF succeeded_steer_queues assms] .

lemma steering_doneI:
  assumes "extends os pre os1" "steer_queues s (queue_range (sh_queues s)) os1 = (None, os')"
  shows "\<exists>t. extends os t os' \<and> steering_done s t"
proof -
  obtain t where "extends os1 t os'"
      "map fst t = map (steer_command s) (queue_range (sh_queues s))" "all_ok t"
    using assms(2) by (rule steer_queues_None)
  then show ?thesis
    using extends_trans [OF assms(1)] unfolding steering_done_def by blast
qed

lemma tc_run_None:
  assumes "tc_run name args os = (None, os')"
  obtains r where "extends os [(plain_command name args, r)] os'" "cmd_ok r"
  using assms by (auto elim!: tc_run_cases)

lemma ensureSteering_success:
  assumes "ensureSteering s os = (None, os')"
  shows "\<exists>t. extends os t os' \<and> steering_done s t"
proof -
  obtain qs os1 where q: "qdiscs s os = (Inr qs, os1)"
    using assms by (auto simp: ensureSteering_def split: prod.splits sum.splits)
  then obtain r1 where r1: "extends os [(qdisc_show s, r1)] os1" by (rule qdiscs_Inr)
  show ?thesis
  proof (cases "list_ex (\<lambda>q. qd_Kind q = ''clsact'') qs")
    case False
    with assms q obtain os2 where
        c: "tc_run ''tc'' [''qdisc'', ''add'', ''dev'', sh_iface s, ''clsact''] os1 = (None, os2)" and
        st: "steer_queues s (queue_range (sh_queues s)) os2 = (None, os')"
      by (auto simp: ensureSteering_def and_then_None)
    obtain r where "extends os1 [(tc_cmd [''qdisc'', ''add'', ''dev'', sh_iface s, ''clsact''], r)] os2"
      using c by (rule tc_run_None)
    from steering_doneI [OF extends_trans [OF r1 this] st] show ?thesis .
  next
    case True
    with assms q obtain out os2 where f: "runJSON ''tc'' [''-j'', ''filter'', ''show'', ''dev'', sh_iface s,
        ''egress'', ''pref'', steerPref] os1 = (Inr out, os2)"
      by (auto simp: ensureSteering_def split: prod.splits sum.splits)
    then obtain r2 where r2: "extends os1 [(filter_show s, r2)] os2" "cr_stdout r2 = out"
      by (auto elim!: runJSON_cases split: if_splits)
    from assms q True f obtain fs where fs: "filters_of r2 = Some fs"
      by (auto simp: ensureSteering_def filters_of_def r2(2) split: option.splits)
    have ext: "extends os [(qdisc_show s, r1), (filter_show s, r2)] os2"
      using extends_trans [OF r1 r2(1)] by simp
    show ?thesis
    proof (cases "steeringMatches fs (sh_queues s)")
      case True
      with assms q f fs \<open>list_ex _ qs\<close> have "os' = os2"
        by (simp add: ensureSteering_def filters_of_def r2(2))
      with True ext fs show ?thesis unfolding steering_done_def by blast
    next
      case False
      show ?thesis
      proof (cases "fs = []")
        case True
        with False assms q f fs \<open>list_ex _ qs\<close> have "steer_queues s (queue_range (sh_queues s)) os2 = (None, os')"
          by (simp add: ensureSteering_def filters_of_def r2(2))
        with ext show ?thesis by (rule steering_doneI)
      next
        case fsne: False
        with False assms q f fs \<open>list_ex _ qs\<close> obtain os3 where
            c: "tc_run ''tc'' [''filter'', ''del'', ''dev'', sh_iface s, ''egress'', ''pref'', steerPref] os2 = (None, os3)" and
            st: "steer_queues s (queue_range (sh_queues s)) os3 = (None, os')"
          by (auto simp: ensureSteering_def filters_of_def r2(2) and_then_None)
        obtain r where "extends os2 [(tc_cmd [''filter'', ''del'', ''dev'', sh_iface s, ''egress'', ''pref'', steerPref], r)] os3"
          using c by (rule tc_run_None)
        from steering_doneI [OF extends_trans [OF ext this] st] show ?thesis .
      qed
    qed
  qed
qed

text \<open>The layout part of a successful \<open>EnsureRoot\<close>.\<close>

definition layout_done :: "Shaper \<Rightarrow> bool \<Rightarrow> u64 \<Rightarrow> exec_trace \<Rightarrow> bool" where
  "layout_done s layoutExists mbit t \<longleftrightarrow>
     (if layoutExists then t = []
      else map fst t = tc_cmd [''qdisc'', ''del'', ''dev'', sh_iface s, ''root''] # layout_commands s mbit \<and>
        all_ok (tl t))"

lemma buildLayout_success:
  assumes "buildLayout s mbit os = (None, os')"
  shows "\<exists>t. extends os t os' \<and> layout_done s False mbit t"
proof -
  let ?del = "tc_cmd [''qdisc'', ''del'', ''dev'', sh_iface s, ''root'']"
  obtain r os1 where d: "os_exec ?del os = (r, os1)" by fastforce
  with buildLayout_runs [of s mbit os]
  have "succeeded (buildLayout s mbit os) = run_cmds (layout_commands s mbit) os1" by simp
  then obtain t where "extends os1 t os'" "map fst t = layout_commands s mbit" "all_ok t"
    using assms by (rule succeeded_trace)
  then show ?thesis
    using extends_trans [OF extends_exec [OF d]]
    by (intro exI [of _ "(?del, r) # t"]) (auto simp: layout_done_def)
qed

lemma EnsureRoot_trace:
  assumes "EnsureRoot s layoutExists mbit os = (None, os')"
  shows "\<exists>t1 t2 r. extends os (t1 @ t2 @ [(nft_restore, r)]) os' \<and> cmd_ok r \<and>
    layout_done s layoutExists mbit t1 \<and> steering_done s t2"
proof -
  obtain os1 os2 where 1: "(if \<not> layoutExists then buildLayout s mbit else (\<lambda>os. (None, os))) os = (None, os1)"
      and 2: "ensureSteering s os1 = (None, os2)" and 3: "ensureConnmarkRestore os2 = (None, os')"
    using assms by (auto simp: EnsureRoot_def and_then_None)
  obtain t1 where t1: "extends os t1 os1" "layout_done s layoutExists mbit t1"
  proof (cases layoutExists)
    case True
    with 1 that [of "[]"] ext_refl show ?thesis by (simp add: layout_done_def)
  next
    case False
    with 1 that buildLayout_success [of s mbit os os1] show ?thesis by auto
  qed
  obtain t2 where t2: "extends os1 t2 os2" "steering_done s t2"
    using ensureSteering_success [OF 2] by blast
  obtain r where r: "extends os2 [(nft_restore, r)] os'" "cmd_ok r"
    using 3 by (auto simp: ensureConnmarkRestore_def cmd_ok_def split: prod.splits option.splits
        intro: extends_exec)
  have "extends os (t1 @ t2 @ [(nft_restore, r)]) os'"
    using extends_trans [OF t1(1) extends_trans [OF t2(1) r(1)]] .
  with t1(2) t2(2) r(2) show ?thesis by blast
qed

text \<open>
  C10. When \<open>EnsureRoot\<close> returns nil, everything shaping needs is in place: the layout was there
  already or all its commands succeeded; the steering filters were listed and matched, or every one
  of them was installed successfully; and the nft rule that restores conntrack marks was applied
  successfully, as the last command, whatever the state of the qdiscs.
\<close>

theorem EnsureRoot_success:
  assumes "EnsureRoot s layoutExists mbit os = (None, os')"
  shows "\<exists>t1 t2 r. os_trace os' = os_trace os @ t1 @ t2 @ [(nft_restore, r)] \<and> cmd_ok r \<and>
    layout_done s layoutExists mbit t1 \<and> steering_done s t2"
  using EnsureRoot_trace [OF assms] extends_trace by blast

theorem EnsureRoot_success_witness:
  "\<exists>t1 t2 r. os_trace (snd (EnsureRoot \<lparr>sh_iface = ''eth0'', sh_queues = 1, sh_burstMs = 100\<rparr> False 1000
        (os_always (ok_result ''[]'')))) = [] @ t1 @ t2 @ [(nft_restore, r)] \<and> cmd_ok r \<and>
    layout_done \<lparr>sh_iface = ''eth0'', sh_queues = 1, sh_burstMs = 100\<rparr> False 1000 t1 \<and>
    steering_done \<lparr>sh_iface = ''eth0'', sh_queues = 1, sh_burstMs = 100\<rparr> t2"
proof -
  let ?s = "\<lparr>sh_iface = ''eth0'', sh_queues = 1, sh_burstMs = 100\<rparr>"
  let ?os = "os_always (ok_result ''[]'')"
  have j: "unmarshal_into (dec_slice zero_tcQdisc dec_tcQdisc) [] ''[]'' = Some []" by code_simp
  have "fst (EnsureRoot ?s False 1000 ?os) = None"
    by (simp add: EnsureRoot_def buildLayout_def ensureSteering_def ensureConnmarkRestore_def qdiscs_def
        runJSON_def tc_run_def os_exec_def and_then_def j queue_range_def
        build_queue_def steer_queue_def Let_def)
  then obtain os' where os': "EnsureRoot ?s False 1000 ?os = (None, os')"
    by (metis prod.collapse)
  from EnsureRoot_success [OF this] show ?thesis by (simp add: os')
qed

text \<open>
  C25. On a restart with everything in place (a layout, a clsact qdisc, the right steering
  filters) \<open>EnsureRoot\<close> changes no qdisc, class or filter: it runs exactly the two listing commands
  and the nft rule, and its result is that of the nft command.
\<close>

theorem EnsureRoot_nothing_to_do:
  assumes "os_exec (qdisc_show s) os = (r1, os1)" "cmd_ok r1" "qdiscs_of r1 = Some qs"
    and "\<exists>q \<in> set qs. qd_Kind q = ''clsact''"
    and "os_exec (filter_show s) os1 = (r2, os2)" "cmd_ok r2" "filters_of r2 = Some fs"
    and "steeringMatches fs (sh_queues s)"
    and "os_exec nft_restore os2 = (r3, os3)"
  shows "snd (EnsureRoot s True mbit os) = os3 \<and> (fst (EnsureRoot s True mbit os) = None \<longleftrightarrow> cmd_ok r3)"
proof -
  have "qdiscs s os = (Inr qs, os1)"
    using assms(1-3) by (simp add: qdiscs_def runJSON_def qdiscs_of_def cmd_ok_def)
  moreover have "list_ex (\<lambda>q. qd_Kind q = ''clsact'') qs"
    using assms(4) by (simp add: list_ex_iff)
  ultimately have "ensureSteering s os = (None, os2)"
    using assms(5-8) by (simp add: ensureSteering_def runJSON_def filters_of_def cmd_ok_def)
  then show ?thesis
    using assms(9)
    by (auto simp: EnsureRoot_def and_then_def ensureConnmarkRestore_def cmd_ok_def split: option.splits)
qed
theorem EnsureRoot_nothing_to_do_witness:
  "\<exists>os. snd (EnsureRoot \<lparr>sh_iface = ''eth0'', sh_queues = 1, sh_burstMs = 0\<rparr> True 0 os) =
       os\<lparr>os_trace := os_trace (snd (EnsureRoot \<lparr>sh_iface = ''eth0'', sh_queues = 1, sh_burstMs = 0\<rparr> True 0 os))\<rparr> \<and>
     length (os_trace (snd (EnsureRoot \<lparr>sh_iface = ''eth0'', sh_queues = 1, sh_burstMs = 0\<rparr> True 0 os))) = 3"
proof -
  let ?s = "\<lparr>sh_iface = ''eth0'', sh_queues = 1, sh_burstMs = 0\<rparr>"
  let ?q = "''[{'' @ jq ''kind'' @ '':'' @ jq ''clsact'' @ ''}]''"
  let ?f = "''[{'' @ jq ''kind'' @ '':'' @ jq ''fw'' @ '','' @ jq ''options'' @ '':{'' @
    jq ''fw'' @ '':{'' @ jq ''mark'' @ '':'' @ jq ''0x10000'' @ '','' @ jq ''mask'' @ '':'' @ jq ''0xff0000'' @ ''},'' @
    jq ''actions'' @ '':[{'' @ jq ''kind'' @ '':'' @ jq ''skbedit'' @ '','' @ jq ''queue_mapping'' @ '':0}]}}]''"
  let ?os = "\<lparr>os_reply = (\<lambda>t c. if t = [] then ok_result ?q else if length t = 1 then ok_result ?f
      else ok_result []), os_trace = []\<rparr>"
  obtain r1 os1 where 1: "os_exec (qdisc_show ?s) ?os = (r1, os1)" by fastforce
  obtain r2 os2 where 2: "os_exec (filter_show ?s) os1 = (r2, os2)" by fastforce
  obtain r3 os3 where 3: "os_exec nft_restore os2 = (r3, os3)" by fastforce
  have r: "r1 = ok_result ?q" "r2 = ok_result ?f"
    using 1 2 by (auto simp: os_exec_def Let_def)
  have "json_unmarshal ?q = Some (JArr [JObj [(''kind'', JStr ''clsact'')]])" by code_simp
  then have Q: "qdiscs_of r1 = Some [zero_tcQdisc\<lparr>qd_Kind := ''clsact''\<rparr>]"
    by (simp add: r qdiscs_of_def unmarshal_into_def dec_tcQdisc_def dec_field_def find_field_def)
  have "json_unmarshal ?f = Some (JArr [JObj [(''kind'', JStr ''fw''),
      (''options'', JObj [(''fw'', JObj [(''mark'', JStr ''0x10000''), (''mask'', JStr ''0xff0000'')]),
        (''actions'', JArr [JObj [(''kind'', JStr ''skbedit''), (''queue_mapping'', JNum ''0'')]])])]])"
    by code_simp
  moreover have "ParseInt64 ''0'' = Some 0" by (simp add: ParseInt64_def ParseUint_def digit_val_def)
  ultimately have F: "filters_of r2 = Some [\<lparr>fl_Kind = ''fw'', fl_Pref = 0, fl_Options = Some (installed_options 1)\<rparr>]"
    by (simp add: r filters_of_def unmarshal_into_def dec_tcFilter_def zero_tcFilter_def
        dec_field_def dec_ptr_def find_field_def installed_options_def Join_def QueueMask_def fmt_hexp_def
        fmt_eval)
  have S: "steeringMatches [\<lparr>fl_Kind = ''fw'', fl_Pref = 0, fl_Options = Some (installed_options 1)\<rparr>] (sh_queues ?s)"
    using steering_entry_installed [of 1 1] by (simp add: steeringMatches_def)
  have ok: "cmd_ok r1" "cmd_ok r2" using r by simp_all
  have cl: "\<exists>q \<in> set [zero_tcQdisc\<lparr>qd_Kind := ''clsact''\<rparr>]. qd_Kind q = ''clsact''" by simp
  have e: "snd (EnsureRoot ?s True 0 ?os) = os3"
    using EnsureRoot_nothing_to_do [OF 1 ok(1) Q cl 2 ok(2) F S 3] by blast
  have "os_reply os3 = os_reply ?os" "length (os_trace os3) = 3"
    using 1 2 3 by (simp_all add: os_exec_trace os_exec_reply)
  then show ?thesis unfolding e [symmetric] by (intro exI [of _ ?os]) simp
qed

section \<open>Properties of SetRate and Remove\<close>

text \<open>
  C26. \<open>SetRate\<close> of a value that is not a user mark runs no command and returns an error. Of a
  user mark it runs exactly one command, \<open>tc class replace\<close> of the mark's class at exactly the
  given rate (in bits, without overflow), and returns nil if and only if that succeeded; then the
  mark's enforced limit is the rate, no other mark's limit changes, and after a failure none does.
\<close>

theorem SetRate_outcome:
  "case SetRate s m rate os of (e, os') \<Rightarrow>
     if snd (snd (Split m (sh_queues s)))
     then \<exists>res cid rest. classIDFor s m = Inr (cid, drop_bit 16 m) \<and>
        os_trace os' = os_trace os @ [(tc_cmd ([''class'', ''replace'', ''dev'', sh_iface s, ''parent'',
          htbHandle (drop_bit 16 m), ''classid'', cid, ''htb'', ''rate'', fmt_d (8 * unat rate) @ ''bit''] @ rest), res)] \<and>
        (e = None \<longleftrightarrow> cmd_ok res) \<and>
        enforced s v0 os' = (if e = None then (enforced s v0 os)(m \<mapsto> rate) else enforced s v0 os)
     else e = Some (notUserMark m (sh_queues s)) \<and> os' = os"
proof -
  obtain e os' where r: "SetRate s m rate os = (e, os')" by fastforce
  then show ?thesis
  proof (cases rule: SetRate_cases)
    case (ran res cid)
    have "classIDFor s m = Inr (cid, drop_bit 16 m)" using ran(1,2) by (simp add: classIDFor_eq)
    moreover obtain rest where "classArgs s ''replace'' (drop_bit 16 m) cid (ucast rate) =
        [''class'', ''replace'', ''dev'', sh_iface s, ''parent'', htbHandle (drop_bit 16 m), ''classid'', cid,
         ''htb'', ''rate'', fmt_d (8 * unat rate) @ ''bit''] @ rest"
      by (cases "0 < htbBurstBytes (ucast rate) (sh_burstMs s)")
         (simp_all add: classArgs_def htbRateArgs_def Let_def unat_rate_bits)
    ultimately show ?thesis
      using ran(1,4) extends_trace [OF ran(3)] SetRate_enforced [OF r, of v0] r
      by (auto simp: user_mark_def)
  qed (use r in \<open>simp add: user_mark_def\<close>)
qed

text \<open>
  \<open>Remove\<close> of a value that is not a user mark (a default class's \<open>q:1\<close> among them) runs no
  command and returns nil. Of a user mark it runs exactly one command, \<open>tc class del\<close> of that
  mark's classid, and returns nil if and only if it succeeded or the class was not there; then the mark has
  no limit and no other mark's limit changed, and after a failure none did.
\<close>

lemma Remove_outcome:
  "case Remove s m os of (e, os') \<Rightarrow>
     if snd (snd (Split m (sh_queues s)))
     then \<exists>res cid. classIDFor s m = Inr (cid, drop_bit 16 m) \<and> mark_of_classid cid = Some m \<and>
        os_trace os' = os_trace os @ [(tc_cmd [''class'', ''del'', ''dev'', sh_iface s, ''classid'', cid], res)] \<and>
        (e = None \<longleftrightarrow> cmd_ok res \<or> Contains (cr_combined res) ''No such file or directory'') \<and>
        enforced s v0 os' = (if e = None then (enforced s v0 os)(m := None) else enforced s v0 os)
     else e = None \<and> os' = os"
proof -
  obtain e os' where r: "Remove s m os = (e, os')" by fastforce
  then show ?thesis
  proof (cases rule: Remove_cases)
    case (ran res cid)
    have "classIDFor s m = Inr (cid, drop_bit 16 m)" using ran(1,2) by (simp add: classIDFor_eq)
    moreover have "mark_of_classid cid = Some m" using mark_of_classid_roundtrip [of m] ran(2) by simp
    ultimately show ?thesis
      using ran(1,4) extends_trace [OF ran(3)] Remove_enforced [OF r, of v0] r
      by (auto simp: user_mark_def)
  qed (use r in \<open>simp add: user_mark_def\<close>)
qed

end
