(* ===== verification/Limiter.thy ===== *)
theory Limiter
  imports Interfaces
begin

text \<open>
  \<open>internal/limiter/memory.go\<close>: the in-memory store of rates, a Go map under a mutex. Each
  operation holds the mutex for its whole body, so it is one step here. It is the base
  implementation of \<open>limiter.Store\<close> (\<open>internal/limiter/limiter.go\<close>, the locale
  \<open>total_limit_store\<close>).
\<close>

record memoryStore =
  ms_entries :: "(u32, u32) gomap"

definition NewMemoryStore :: memoryStore where
  "NewMemoryStore = \<lparr>ms_entries = []\<rparr>"

definition memoryStore_Set :: "u32 \<Rightarrow> u32 \<Rightarrow> memoryStore action" where
  "memoryStore_Set mark rateBytesPerSec s =
     (None, s\<lparr>ms_entries := gm_set mark rateBytesPerSec (ms_entries s)\<rparr>)"

definition memoryStore_Delete :: "u32 \<Rightarrow> memoryStore action" where
  "memoryStore_Delete mark s = (None, s\<lparr>ms_entries := gm_delete mark (ms_entries s)\<rparr>)"

definition memoryStore_Get :: "u32 \<Rightarrow> memoryStore \<Rightarrow> u32 option" where
  "memoryStore_Get mark s = gm_get (ms_entries s) mark"

definition memoryStore_List :: "memoryStore \<Rightarrow> Entry list go_result" where
  "memoryStore_List s =
     Inr (map (\<lambda>(mark, rate). \<lparr>en_Mark = mark, en_RateBytesPerSec = rate\<rparr>) (ms_entries s))"

definition memoryStore_inv :: "memoryStore \<Rightarrow> bool" where
  "memoryStore_inv s \<longleftrightarrow> gm_ok (ms_entries s)"

lemma NewMemoryStore_inv [simp]: "memoryStore_inv NewMemoryStore"
  by (simp add: memoryStore_inv_def NewMemoryStore_def)

lemma NewMemoryStore_Get [simp]: "memoryStore_Get m NewMemoryStore = None"
  by (simp add: memoryStore_Get_def NewMemoryStore_def)

interpretation mem: total_limit_store memoryStore_Set memoryStore_Delete memoryStore_Get
    memoryStore_List memoryStore_inv
proof unfold_locales
  fix s es
  assume "memoryStore_inv s" "memoryStore_List s = Inr es"
  then show "distinct (map en_Mark es)"
    by (auto simp: memoryStore_inv_def memoryStore_List_def gm_ok_def comp_def case_prod_beta)
next
  fix s es m r
  assume "memoryStore_inv s" "memoryStore_List s = Inr es"
  then show "\<lparr>en_Mark = m, en_RateBytesPerSec = r\<rparr> \<in> set es \<longleftrightarrow> memoryStore_Get m s = Some r"
    by (force simp: memoryStore_inv_def memoryStore_List_def memoryStore_Get_def gm_get_in_set)
qed (auto simp: memoryStore_inv_def memoryStore_Set_def memoryStore_Delete_def memoryStore_Get_def
      memoryStore_List_def)

end
