(* ===== verification/Shaped_Store.thy ===== *)
theory Shaped_Store
  imports Limiter Shaper_Ops
begin

text \<open>
  \<open>internal/tcshape/store.go\<close>: the store that applies every change in tc first and records
  it in its base store only once that succeeded. Its state is the base store and the
  environment the shaper works on. \<open>Set\<close> and \<open>Delete\<close> hold the mutex for their whole body,
  so here they are one step; \<open>Store_Conc\<close> has the steps in between, and what the mutex is for.
\<close>

section \<open>The operations, over any base store and any RateShaper\<close>

definition shapedStore_Set ::
    "(u32 \<Rightarrow> u32 \<Rightarrow> 'w action) \<Rightarrow> (u32 \<Rightarrow> u32 \<Rightarrow> 'b action) \<Rightarrow> u32 \<Rightarrow> u32 \<Rightarrow> ('b \<times> 'w) action" where
  "shapedStore_Set setRate baseSet mark rate s =
     (case s of (base, w) \<Rightarrow>
        (case setRate mark rate w of
           (Some e, w') \<Rightarrow> (Some e, (base, w'))
         | (None, w') \<Rightarrow> (case baseSet mark rate base of (e, base') \<Rightarrow> (e, (base', w')))))"

definition shapedStore_Delete ::
    "(u32 \<Rightarrow> 'w action) \<Rightarrow> (u32 \<Rightarrow> 'b action) \<Rightarrow> u32 \<Rightarrow> ('b \<times> 'w) action" where
  "shapedStore_Delete remove baseDelete mark s =
     (case s of (base, w) \<Rightarrow>
        (case remove mark w of
           (Some e, w') \<Rightarrow> (Some e, (base, w'))
         | (None, w') \<Rightarrow> (case baseDelete mark base of (e, base') \<Rightarrow> (e, (base', w')))))"

definition shapedStore_Get :: "(u32 \<Rightarrow> 'b \<Rightarrow> u32 option) \<Rightarrow> u32 \<Rightarrow> 'b \<times> 'w \<Rightarrow> u32 option" where
  "shapedStore_Get baseGet mark s = baseGet mark (fst s)"

definition shapedStore_List :: "('b \<Rightarrow> Entry list go_result) \<Rightarrow> 'b \<times> 'w \<Rightarrow> Entry list go_result" where
  "shapedStore_List baseList s = baseList (fst s)"

section \<open>What WrapStore promises\<close>

locale shaped_store =
  shaper: rate_shaper rs_SetRate rs_Remove rs_limits +
  base: total_limit_store b_Set b_Delete b_Get b_List b_inv
  for rs_SetRate :: "u32 \<Rightarrow> u32 \<Rightarrow> 'w action" and rs_Remove rs_limits
    and b_Set :: "u32 \<Rightarrow> u32 \<Rightarrow> 'b action" and b_Delete b_Get b_List b_inv
begin

abbreviation wrapped_Set :: "u32 \<Rightarrow> u32 \<Rightarrow> ('b \<times> 'w) action" where
  "wrapped_Set \<equiv> shapedStore_Set rs_SetRate b_Set"

abbreviation wrapped_Delete :: "u32 \<Rightarrow> ('b \<times> 'w) action" where
  "wrapped_Delete \<equiv> shapedStore_Delete rs_Remove b_Delete"

text \<open>The wrapper is itself a \<open>limiter.Store\<close>.\<close>

sublocale wrapped: limit_store wrapped_Set wrapped_Delete "shapedStore_Get b_Get"
    "shapedStore_List b_List" "\<lambda>s. b_inv (fst s)"
  by unfold_locales
     (auto simp: shapedStore_Set_def shapedStore_Delete_def shapedStore_Get_def shapedStore_List_def
        base.Set_ok base.Delete_ok base.List_distinct base.List_Get
        split: prod.splits option.splits
        dest: base.Set_inv base.Delete_inv base.Set_total base.Delete_total)

text \<open>Every limit the store lists is enforced at that rate.\<close>

definition synced :: "'b \<times> 'w \<Rightarrow> bool" where
  "synced s \<longleftrightarrow> (\<forall>m r. b_Get m (fst s) = Some r \<longrightarrow> rs_limits (snd s) m = Some r)"

lemma Set_cases:
  assumes "wrapped_Set m r (b, w) = (e, s')"
  obtains (failed) msg w' where "rs_SetRate m r w = (Some msg, w')" "e = Some msg" "s' = (b, w')"
  | (applied) b' w' where "rs_SetRate m r w = (None, w')" "b_Set m r b = (None, b')" "e = None" "s' = (b', w')"
  using assms
  by (auto simp: shapedStore_Set_def split: prod.splits option.splits dest: base.Set_total)

lemma Delete_cases:
  assumes "wrapped_Delete m (b, w) = (e, s')"
  obtains (failed) msg w' where "rs_Remove m w = (Some msg, w')" "e = Some msg" "s' = (b, w')"
  | (applied) b' w' where "rs_Remove m w = (None, w')" "b_Delete m b = (None, b')" "e = None" "s' = (b', w')"
  using assms
  by (auto simp: shapedStore_Delete_def split: prod.splits option.splits dest: base.Delete_total)

lemma Set_synced:
  assumes "b_inv (fst s)" "synced s" "wrapped_Set m r s = (e, s')"
  shows "synced s'"
proof -
  obtain b w where s: "s = (b, w)" by (cases s)
  from assms(3) [unfolded s] show ?thesis
  proof (cases rule: Set_cases)
    case (failed msg w')
    with assms(2) shaper.SetRate_fail [OF failed(1)] show ?thesis by (simp add: synced_def s)
  next
    case (applied b' w')
    with assms(1,2) shaper.SetRate_ok [OF applied(1)] base.Set_view [OF _ applied(2)]
    show ?thesis by (simp add: synced_def s)
  qed
qed

lemma Delete_synced:
  assumes "b_inv (fst s)" "synced s" "wrapped_Delete m s = (e, s')"
  shows "synced s'"
proof -
  obtain b w where s: "s = (b, w)" by (cases s)
  from assms(3) [unfolded s] show ?thesis
  proof (cases rule: Delete_cases)
    case (failed msg w')
    with assms(2) shaper.Remove_fail [OF failed(1)] show ?thesis by (simp add: synced_def s)
  next
    case (applied b' w')
    with assms(1,2) shaper.Remove_ok [OF applied(1)] base.Delete_view [OF _ applied(2)]
    show ?thesis by (simp add: synced_def s)
  qed
qed

lemma run_ops_synced:
  "b_inv (fst s) \<Longrightarrow> synced s \<Longrightarrow> run_ops wrapped_Set wrapped_Delete xs s = (d, s') \<Longrightarrow> synced s'"
proof (induction xs arbitrary: s d s')
  case (Cons x xs)
  obtain e s1 where 1: "run_op wrapped_Set wrapped_Delete x s = (e, s1)"
    by (cases "run_op wrapped_Set wrapped_Delete x s")
  have sy: "synced s1" using Cons.prems 1 by (cases x) (auto intro: Set_synced Delete_synced)
  have iv: "b_inv (fst s1)" using wrapped.run_op_inv [OF Cons.prems(1) 1] by simp
  obtain d2 s2 where 2: "run_ops wrapped_Set wrapped_Delete xs s1 = (d2, s2)"
    by (cases "run_ops wrapped_Set wrapped_Delete xs s1")
  from Cons.IH [OF iv sy 2] have "synced s2" .
  then show ?case using Cons.prems(3) 1 2 by simp
qed simp

text \<open>What a \<open>Set\<close> or \<open>Delete\<close> does to the two layers, by outcome.\<close>

lemma Set_outcome:
  assumes "b_inv b" "wrapped_Set m r (b, w) = (e, (b', w'))"
  shows "if e = None then rs_limits w' = (rs_limits w)(m \<mapsto> r) \<and> b_Get m b' = Some r
         else rs_limits w' = rs_limits w \<and> b' = b"
  using assms(2)
proof (cases rule: Set_cases)
  case (applied b1 w1)
  then show ?thesis using shaper.SetRate_ok base.Set_view [OF assms(1)] by simp
qed (use shaper.SetRate_fail in simp)

lemma Delete_outcome:
  assumes "b_inv b" "wrapped_Delete m (b, w) = (e, (b', w'))"
  shows "if e = None then rs_limits w' = (rs_limits w)(m := None) \<and> b_Get m b' = None
         else rs_limits w' = rs_limits w \<and> b' = b"
  using assms(2)
proof (cases rule: Delete_cases)
  case (applied b1 w1)
  then show ?thesis using shaper.Remove_ok base.Delete_view [OF assms(1)] by simp
qed (use shaper.Remove_fail in simp)

end

section \<open>The store main builds\<close>

text \<open>\<open>WrapStore\<close> on the in-memory store and the Shaper.\<close>

type_synonym xstore = "memoryStore \<times> os"

definition store_Set :: "Shaper \<Rightarrow> u32 \<Rightarrow> u32 \<Rightarrow> xstore action" where
  "store_Set s = shapedStore_Set (SetRate s) memoryStore_Set"

definition store_Delete :: "Shaper \<Rightarrow> u32 \<Rightarrow> xstore action" where
  "store_Delete s = shapedStore_Delete (Remove s) memoryStore_Delete"

definition store_Get :: "u32 \<Rightarrow> xstore \<Rightarrow> u32 option" where
  "store_Get = shapedStore_Get memoryStore_Get"

definition store_List :: "xstore \<Rightarrow> Entry list go_result" where
  "store_List = shapedStore_List memoryStore_List"

interpretation xray: shaped_store "SetRate s" "Remove s" "enforced s v0"
    memoryStore_Set memoryStore_Delete memoryStore_Get memoryStore_List memoryStore_inv
  for s v0
  by unfold_locales

interpretation xstore: limit_store "store_Set s" "store_Delete s" store_Get store_List
    "\<lambda>x. memoryStore_inv (fst x)" for s
  unfolding store_Set_def store_Delete_def store_Get_def store_List_def
  by (rule xray.wrapped.limit_store_axioms)

lemmas xstore_defs = store_Set_def store_Delete_def store_Get_def store_List_def

section \<open>Properties\<close>

text \<open>
  C15. Whatever sequence of \<open>Set\<close> and \<open>Delete\<close> calls is made on the store, with whatever tc
  answers, the rates it then holds (\<open>Get\<close>) are those of a plain mapping to which exactly the calls
  that returned nil were applied, in order; and \<open>List\<close> has one entry for each of them.
\<close>

theorem store_refines_map:
  assumes "memoryStore_inv b"
    and "run_ops (store_Set s) (store_Delete s) xs (b, os) = (done_ops, (b', os'))"
  shows "(\<lambda>m. store_Get m (b', os')) = fold abs_op done_ops (\<lambda>m. store_Get m (b, os)) \<and>
    (\<exists>es. store_List (b', os') = Inr es \<and> distinct (map en_Mark es) \<and>
      map_of (map (\<lambda>e. (en_Mark e, en_RateBytesPerSec e)) es) = (\<lambda>m. store_Get m (b', os')))"
proof -
  have 1: "memoryStore_inv b'" "(\<lambda>m. store_Get m (b', os')) = fold abs_op done_ops (\<lambda>m. store_Get m (b, os))"
    using xstore.run_ops_refines [of "(b, os)" s xs done_ops "(b', os')"] assms by simp_all
  obtain es where "store_List (b', os') = Inr es"
    using mem.List_total [of b'] by (auto simp: xstore_defs shapedStore_List_def)
  with 1 xstore.List_view [of "(b', os')" es] xstore.List_distinct [of "(b', os')" es]
  show ?thesis by simp
qed

theorem store_refines_map_witness:
  "\<exists>d b' os'. run_ops (store_Set \<lparr>sh_iface = ''eth0'', sh_queues = 4, sh_burstMs = 0\<rparr>)
      (store_Delete \<lparr>sh_iface = ''eth0'', sh_queues = 4, sh_burstMs = 0\<rparr>)
      [OpSet 0x1002a 5, OpSet 7 9] (NewMemoryStore, os_always (ok_result [])) = (d, (b', os')) \<and>
    (\<lambda>m. store_Get m (b', os')) = fold abs_op d (\<lambda>_. None)"
proof -
  let ?s = "\<lparr>sh_iface = ''eth0'', sh_queues = 4, sh_burstMs = 0\<rparr>"
  obtain d b' os' where r: "run_ops (store_Set ?s) (store_Delete ?s) [OpSet 0x1002a 5, OpSet 7 9]
      (NewMemoryStore, os_always (ok_result [])) = (d, (b', os'))"
    by (metis surj_pair)
  from store_refines_map [OF NewMemoryStore_inv r] r show ?thesis
    by (auto simp: store_Get_def shapedStore_Get_def)
qed

text \<open>
  C5. No limit is listed that is not enforced: if at the start every rate the store holds is the
  enforced limit of its mark, then the same is true after any sequence of \<open>Set\<close> and \<open>Delete\<close>
  calls, whichever of their tc commands fail.
\<close>

theorem store_listed_is_enforced:
  assumes "memoryStore_inv b"
    and "\<forall>m r. store_Get m (b, os) = Some r \<longrightarrow> enforced s v0 os m = Some r"
    and "run_ops (store_Set s) (store_Delete s) xs (b, os) = (done_ops, (b', os'))"
    and "store_Get m (b', os') = Some r"
  shows "enforced s v0 os' m = Some r"
  using xray.run_ops_synced [of "(b, os)" s v0 xs done_ops "(b', os')"] assms
  by (simp add: xray.synced_def xstore_defs shapedStore_Get_def)

theorem store_listed_is_enforced_witness:
  "enforced \<lparr>sh_iface = ''eth0'', sh_queues = 4, sh_burstMs = 0\<rparr> Map.empty
     (snd (snd (run_ops (store_Set \<lparr>sh_iface = ''eth0'', sh_queues = 4, sh_burstMs = 0\<rparr>)
        (store_Delete \<lparr>sh_iface = ''eth0'', sh_queues = 4, sh_burstMs = 0\<rparr>)
        [OpSet 0x1002a 5] (NewMemoryStore, os_always (ok_result []))))) 0x1002a = Some 5"
proof -
  let ?s = "\<lparr>sh_iface = ''eth0'', sh_queues = 4, sh_burstMs = 0\<rparr>"
  obtain d b' os' where r: "run_ops (store_Set ?s) (store_Delete ?s) [OpSet 0x1002a 5]
      (NewMemoryStore, os_always (ok_result [])) = (d, (b', os'))"
    by (metis surj_pair)
  then have "store_Get 0x1002a (b', os') = Some 5"
    by (auto simp: xstore_defs shapedStore_Set_def shapedStore_Get_def SetRate_def classIDFor_def Split_def
        MinMinor_def Let_def and_then_def tc_run_def os_exec_def memoryStore_Set_def memoryStore_Get_def
        word_le_nat_alt split: prod.splits option.splits if_splits)
  with store_listed_is_enforced [where ?v0.0 = "Map.empty" and m = "0x1002a" and r = 5, OF NewMemoryStore_inv _ r] r show ?thesis
    by (simp add: store_Get_def shapedStore_Get_def)
qed

text \<open>
  C16. A \<open>Set\<close> or \<open>Delete\<close> on the store is all or nothing: if it returns nil, both the enforced
  limit and the stored rate of the mark are the new ones; if it returns an error, the stored rates and
  the enforced limits are all what they were.
\<close>

theorem store_all_or_nothing:
  assumes "memoryStore_inv b"
  shows "(case store_Set s m r (b, os) of (e, (b', os')) \<Rightarrow>
      if e = None
      then enforced s v0 os' = (enforced s v0 os)(m \<mapsto> r) \<and> store_Get m (b', os') = Some r
      else enforced s v0 os' = enforced s v0 os \<and> b' = b) \<and>
    (case store_Delete s m (b, os) of (e, (b', os')) \<Rightarrow>
      if e = None
      then enforced s v0 os' = (enforced s v0 os)(m := None) \<and> store_Get m (b', os') = None
      else enforced s v0 os' = enforced s v0 os \<and> b' = b)"
  using xray.Set_outcome [OF assms, of s m r os _ _ _ v0] xray.Delete_outcome [OF assms, of s m os _ _ _ v0]
  by (auto simp: xstore_defs shapedStore_Get_def split: prod.splits)

theorem store_all_or_nothing_witness:
  "case store_Set \<lparr>sh_iface = ''eth0'', sh_queues = 4, sh_burstMs = 0\<rparr> 0x1002a 5
      (NewMemoryStore, os_always (failed_result ''RTNETLINK answers: Invalid argument'')) of (e, (b', os')) \<Rightarrow>
    e \<noteq> None \<and> b' = NewMemoryStore"
proof -
  let ?s = "\<lparr>sh_iface = ''eth0'', sh_queues = 4, sh_burstMs = 0\<rparr>"
  let ?os = "os_always (failed_result ''RTNETLINK answers: Invalid argument'')"
  have "fst (store_Set ?s 0x1002a 5 (NewMemoryStore, ?os)) \<noteq> None"
    by (simp add: xstore_defs shapedStore_Set_def SetRate_def classIDFor_def Split_def MinMinor_def Let_def
        and_then_def tc_run_def os_exec_def failed_result_def word_le_nat_alt)
  with store_all_or_nothing [where s = ?s and m = "0x1002a" and r = 5 and os = ?os, OF NewMemoryStore_inv] show ?thesis
    by (auto split: prod.splits)
qed

end
