(* ===== verification/Store_Conc.thy ===== *)
theory Store_Conc
  imports Shaped_Store
begin

text \<open>
  \<open>internal/tcshape/store.go\<close> under concurrency. HTTP handlers, the provisioning goroutine and
  the idle collector call \<open>Set\<close> and \<open>Delete\<close> of one store from several goroutines. Here each call is
  taken apart at the points where others can run: taking the mutex, the tc command, the update of
  the base store, and releasing the mutex. Shown are that the mutex makes every execution equal to a
  serial one (with the results the callers got), that it cannot deadlock, and that without it the
  interleaving the source's comment describes is possible.
\<close>

section \<open>Calls in progress\<close>

datatype call_phase =
    Waiting store_op           \<comment> \<open>called, before \<open>mu.Lock\<close>\<close>
  | InShaper store_op          \<comment> \<open>inside, before the shaper call\<close>
  | InBase store_op            \<comment> \<open>the shaper call returned nil, before the base call\<close>
  | Unlocking err_opt          \<comment> \<open>the result is known, before the deferred \<open>mu.Unlock\<close>\<close>
  | Returned err_opt

fun holds_lock :: "call_phase \<Rightarrow> bool" where
  "holds_lock (InShaper x) = True"
| "holds_lock (InBase x) = True"
| "holds_lock (Unlocking e) = True"
| "holds_lock _ = False"

text \<open>\<open>c_hist\<close> is not part of the program: it records each call and its result when the
  result becomes known.\<close>

record ('b, 'w) conf =
  c_lock :: "nat option"
  c_base :: 'b
  c_shaped :: 'w
  c_call :: "nat \<Rightarrow> call_phase"
  c_hist :: "(store_op \<times> err_opt) list"

text \<open>
  One step of goroutine \<open>t\<close>. \<open>mutex\<close> says whether \<open>mu\<close> is there; \<open>shape\<close> and \<open>commit\<close> are the
  shaper's and the base store's side of an operation.
\<close>

inductive conc_step :: "bool \<Rightarrow> (store_op \<Rightarrow> 'w action) \<Rightarrow> (store_op \<Rightarrow> 'b action) \<Rightarrow>
    ('b, 'w) conf \<Rightarrow> ('b, 'w) conf \<Rightarrow> bool"
  for mutex :: bool and shape :: "store_op \<Rightarrow> 'w action" and commit :: "store_op \<Rightarrow> 'b action" where
  Call: "c_call c t = Returned e \<Longrightarrow>
    conc_step mutex shape commit c (c\<lparr>c_call := (c_call c)(t := Waiting x)\<rparr>)"
| Lock: "c_call c t = Waiting x \<Longrightarrow> mutex \<longrightarrow> c_lock c = None \<Longrightarrow>
    conc_step mutex shape commit c (c\<lparr>c_call := (c_call c)(t := InShaper x), c_lock := Some t\<rparr>)"
| Shape_fail: "c_call c t = InShaper x \<Longrightarrow> shape x (c_shaped c) = (Some e, w) \<Longrightarrow>
    conc_step mutex shape commit c
      (c\<lparr>c_call := (c_call c)(t := Unlocking (Some e)), c_shaped := w, c_hist := c_hist c @ [(x, Some e)]\<rparr>)"
| Shape_ok: "c_call c t = InShaper x \<Longrightarrow> shape x (c_shaped c) = (None, w) \<Longrightarrow>
    conc_step mutex shape commit c (c\<lparr>c_call := (c_call c)(t := InBase x), c_shaped := w\<rparr>)"
| Base: "c_call c t = InBase x \<Longrightarrow> commit x (c_base c) = (e, b) \<Longrightarrow>
    conc_step mutex shape commit c
      (c\<lparr>c_call := (c_call c)(t := Unlocking e), c_base := b, c_hist := c_hist c @ [(x, e)]\<rparr>)"
| Unlock: "c_call c t = Unlocking e \<Longrightarrow>
    conc_step mutex shape commit c (c\<lparr>c_call := (c_call c)(t := Returned e), c_lock := None\<rparr>)"

definition conc_init :: "'b \<Rightarrow> 'w \<Rightarrow> ('b, 'w) conf" where
  "conc_init b w = \<lparr>c_lock = None, c_base = b, c_shaped = w, c_call = (\<lambda>_. Returned None), c_hist = []\<rparr>"

abbreviation conc_reachable where
  "conc_reachable mutex shape commit b w \<equiv> (conc_step mutex shape commit)\<^sup>*\<^sup>* (conc_init b w)"

section \<open>The serial execution\<close>

text \<open>The body of \<open>Set\<close> or \<open>Delete\<close> run without interruption.\<close>

definition serial_call :: "(store_op \<Rightarrow> 'w action) \<Rightarrow> (store_op \<Rightarrow> 'b action) \<Rightarrow> store_op \<Rightarrow> ('b \<times> 'w) action" where
  "serial_call shape commit x s = (case s of (b, w) \<Rightarrow>
     (case shape x w of
        (Some e, w') \<Rightarrow> (Some e, (b, w'))
      | (None, w') \<Rightarrow> (case commit x b of (e, b') \<Rightarrow> (e, (b', w')))))"

lemma serial_call_run_op:
  "serial_call (run_op setRate remove) (run_op baseSet baseDelete) x s =
     run_op (shapedStore_Set setRate baseSet) (shapedStore_Delete remove baseDelete) x s"
  by (cases x; cases s)
     (auto simp: serial_call_def shapedStore_Set_def shapedStore_Delete_def split: prod.splits option.splits)

text \<open>\<open>serial_run h s s'\<close>: running the calls of \<open>h\<close> one after the other takes \<open>s\<close> to \<open>s'\<close>
  and gives each call the result \<open>h\<close> records for it.\<close>

fun serial_run :: "(store_op \<Rightarrow> 'w action) \<Rightarrow> (store_op \<Rightarrow> 'b action) \<Rightarrow>
    (store_op \<times> err_opt) list \<Rightarrow> 'b \<times> 'w \<Rightarrow> 'b \<times> 'w \<Rightarrow> bool" where
  "serial_run shape commit [] s s' = (s' = s)"
| "serial_run shape commit ((x, e) # h) s s' =
     (case serial_call shape commit x s of (e1, s1) \<Rightarrow> e1 = e \<and> serial_run shape commit h s1 s')"

lemma serial_run_append:
  "serial_run shape commit (h @ h') s s'' \<longleftrightarrow>
     (\<exists>s'. serial_run shape commit h s s' \<and> serial_run shape commit h' s' s'')"
  by (induction h arbitrary: s) (auto simp del: split_paired_Ex split: prod.splits)

lemma serial_run_snoc:
  "serial_run shape commit h s (b, w) \<Longrightarrow> serial_call shape commit x (b, w) = (e, s') \<Longrightarrow>
     serial_run shape commit (h @ [(x, e)]) s s'"
  by (auto simp: serial_run_append simp del: split_paired_Ex split: prod.splits)

lemma serial_run_run_ops:
  "serial_run (run_op setRate remove) (run_op baseSet baseDelete) h s s' \<Longrightarrow>
     run_ops (shapedStore_Set setRate baseSet) (shapedStore_Delete remove baseDelete) (map fst h) s =
       (map fst (filter (\<lambda>(x, e). e = None) h), s')"
  by (induction h arbitrary: s) (auto simp: serial_call_run_op split: prod.splits)

section \<open>The invariant the mutex gives\<close>

text \<open>The mutex is held exactly by the goroutine that is inside, and the two layers are those
  of the serial execution so far, up to the tc command of the call in progress.\<close>

definition lock_inv :: "('b, 'w) conf \<Rightarrow> bool" where
  "lock_inv c \<longleftrightarrow> (\<forall>t. holds_lock (c_call c t) = (c_lock c = Some t))"

definition data_inv :: "(store_op \<Rightarrow> 'w action) \<Rightarrow> (store_op \<Rightarrow> 'b action) \<Rightarrow> 'b \<times> 'w \<Rightarrow>
    ('b, 'w) conf \<Rightarrow> bool" where
  "data_inv shape commit s c \<longleftrightarrow>
     (case c_lock c of
        Some t \<Rightarrow>
          (case c_call c t of
             InBase x \<Rightarrow> \<exists>w. serial_run shape commit (c_hist c) s (c_base c, w) \<and> shape x w = (None, c_shaped c)
           | _ \<Rightarrow> serial_run shape commit (c_hist c) s (c_base c, c_shaped c))
      | None \<Rightarrow> serial_run shape commit (c_hist c) s (c_base c, c_shaped c))"

definition conc_inv :: "(store_op \<Rightarrow> 'w action) \<Rightarrow> (store_op \<Rightarrow> 'b action) \<Rightarrow> 'b \<times> 'w \<Rightarrow>
    ('b, 'w) conf \<Rightarrow> bool" where
  "conc_inv shape commit s c \<longleftrightarrow> lock_inv c \<and> data_inv shape commit s c"

lemma conc_init_inv: "conc_inv shape commit (b, w) (conc_init b w)"
  by (simp add: conc_inv_def lock_inv_def data_inv_def conc_init_def)

lemma lock_invD: "lock_inv c \<Longrightarrow> holds_lock (c_call c t) = (c_lock c = Some t)"
  by (simp add: lock_inv_def)

lemma lock_inv_call:
  "lock_inv c \<Longrightarrow> c_call c t = p \<Longrightarrow> c_lock c = Some t \<longleftrightarrow> holds_lock p"
  by (auto simp: lock_invD [symmetric])

text \<open>A step that neither enters nor leaves keeps the mutex invariant.\<close>

lemma lock_inv_update:
  "lock_inv c \<Longrightarrow> c_lock c' = c_lock c \<Longrightarrow> 
     \<forall>u. holds_lock (c_call c' u) = holds_lock (c_call c u) \<Longrightarrow> lock_inv c'"
  by (simp add: lock_inv_def)

lemma lock_step_inv: "conc_step True shape commit c c' \<Longrightarrow> lock_inv c \<Longrightarrow> lock_inv c'"
proof (induction rule: conc_step.induct)
  case (Unlock c t e)
  then have "c_lock c = Some t" by (simp add: lock_inv_call)
  with Unlock(2) have "\<not> holds_lock (c_call c u)" if "u \<noteq> t" for u
    using that by (simp add: lock_invD)
  then show ?case by (simp add: lock_inv_def)
next
  case (Lock c t x)
  then show ?case by (simp add: lock_inv_def)
qed (erule lock_inv_update; simp)+

lemma data_step_inv:
  "conc_step True shape commit c c' \<Longrightarrow> lock_inv c \<Longrightarrow> data_inv shape commit s c \<Longrightarrow> data_inv shape commit s c'"
proof (induction rule: conc_step.induct)
  case (Call c t e x)
  from Call(2,1) have "c_lock c \<noteq> Some t" by (simp add: lock_inv_call)
  with Call(3) show ?case by (cases "c_lock c") (simp_all add: data_inv_def split: call_phase.splits)
next
  case (Lock c t x)
  then show ?case by (simp add: data_inv_def)
next
  case (Shape_fail c t x e w)
  from Shape_fail(3,1) have l: "c_lock c = Some t" by (simp add: lock_inv_call)
  have "serial_run shape commit (c_hist c) s (c_base c, c_shaped c)"
    using Shape_fail(1,4) l by (simp add: data_inv_def)
  then have "serial_run shape commit (c_hist c @ [(x, Some e)]) s (c_base c, w)"
    by (rule serial_run_snoc) (simp add: serial_call_def Shape_fail(2))
  with l show ?case by (simp add: data_inv_def)
next
  case (Shape_ok c t x w)
  from Shape_ok(3,1) have l: "c_lock c = Some t" by (simp add: lock_inv_call)
  with Shape_ok(1,2,4) show ?case by (auto simp: data_inv_def)
next
  case (Base c t x e b)
  from Base(3,1) have l: "c_lock c = Some t" by (simp add: lock_inv_call)
  obtain w where w: "serial_run shape commit (c_hist c) s (c_base c, w)" "shape x w = (None, c_shaped c)"
    using Base(1,4) l by (auto simp: data_inv_def)
  from w(1) have "serial_run shape commit (c_hist c @ [(x, e)]) s (b, c_shaped c)"
    by (rule serial_run_snoc) (simp add: serial_call_def w(2) Base(2))
  with l show ?case by (simp add: data_inv_def)
next
  case (Unlock c t e)
  from Unlock(2,1) have l: "c_lock c = Some t" by (simp add: lock_inv_call)
  with Unlock(1,3) show ?case by (simp add: data_inv_def)
qed

lemma conc_step_inv:
  "conc_step True shape commit c c' \<Longrightarrow> conc_inv shape commit s c \<Longrightarrow> conc_inv shape commit s c'"
  unfolding conc_inv_def using lock_step_inv data_step_inv by blast

lemma conc_reachable_inv:
  "conc_reachable True shape commit b w c \<Longrightarrow> conc_inv shape commit (b, w) c"
  by (induction rule: rtranclp_induct) (auto intro: conc_init_inv conc_step_inv)

text \<open>A call in progress, with the mutex free or held, leaves some goroutine able to go on.\<close>

lemma conc_inv_progress:
  assumes "conc_inv shape commit s c" "\<forall>e. c_call c t \<noteq> Returned e"
  shows "\<exists>u c'. conc_step True shape commit c c' \<and> (\<forall>e. c_call c u \<noteq> Returned e) \<and> c_call c' u \<noteq> c_call c u"
proof -
  have go: "\<exists>c'. conc_step True shape commit c c' \<and> c_call c' u \<noteq> c_call c u" if "holds_lock (c_call c u)" for u
  proof (cases "c_call c u")
    case (InShaper x)
    obtain e w where "shape x (c_shaped c) = (e, w)" by fastforce
    with InShaper show ?thesis
      by (cases e) (auto intro!: exI conjI conc_step.Shape_fail conc_step.Shape_ok)
  next
    case (InBase x)
    obtain e b where "commit x (c_base c) = (e, b)" by fastforce
    with InBase show ?thesis by (auto intro!: exI conjI conc_step.Base)
  next
    case (Unlocking e)
    then show ?thesis by (auto intro!: exI conjI conc_step.Unlock)
  qed (use that in simp_all)
  show ?thesis
  proof (cases "c_lock c")
    case None
    with assms(1) have "\<not> holds_lock (c_call c t)" by (simp add: conc_inv_def lock_invD)
    with assms(2) obtain x where "c_call c t = Waiting x" by (cases "c_call c t") auto
    with None show ?thesis
      by (intro exI [of _ t]) (auto intro!: exI conjI conc_step.Lock)
  next
    case (Some u)
    with assms(1) have h: "holds_lock (c_call c u)" by (simp add: conc_inv_def lock_invD)
    then have "\<forall>e. c_call c u \<noteq> Returned e" by auto
    with go [OF h] show ?thesis by blast
  qed
qed

lemma rtranclp_refl_eq: "a = b \<Longrightarrow> r\<^sup>*\<^sup>* a b"
  by simp

text \<open>One call, alone, to its end.\<close>

lemma conc_alone:
  assumes "shape x w = (None, w1)" "commit x b = (None, b1)"
  shows "conc_reachable mutex shape commit b w
    \<lparr>c_lock = None, c_base = b1, c_shaped = w1, c_call = (\<lambda>_. Returned None), c_hist = [(x, None)]\<rparr>"
  unfolding conc_init_def
  apply (rule converse_rtranclp_into_rtranclp, rule conc_step.Call [where t = 0 and x = x and e = None])
  apply (simp_all add: assms)
  apply (rule converse_rtranclp_into_rtranclp, rule conc_step.Lock [where t = 0 and x = x])
  apply (simp_all add: assms)
  apply (rule converse_rtranclp_into_rtranclp, rule conc_step.Shape_ok [where t = 0 and x = x and w = w1])
  apply (simp_all add: assms)
  apply (rule converse_rtranclp_into_rtranclp, rule conc_step.Base [where t = 0 and x = x and e = None and b = b1])
  apply (simp_all add: assms)
  apply (rule converse_rtranclp_into_rtranclp, rule conc_step.Unlock [where t = 0 and e = None])
  apply (simp_all add: assms)
  apply (rule rtranclp_refl_eq)
  apply (simp add: fun_eq_iff)
  done

text \<open>Without the mutex two calls can overlap: here \<open>x\<close> starts first, \<open>y\<close> runs to its end
  between the two halves of \<open>x\<close>.\<close>

lemma conc_overlap:
  assumes "shape x w = (None, w1)" "shape y w1 = (None, w2)" "commit y b = (None, b1)" "commit x b1 = (None, b2)"
  shows "conc_reachable False shape commit b w
    \<lparr>c_lock = None, c_base = b2, c_shaped = w2, c_call = (\<lambda>_. Returned None), c_hist = [(y, None), (x, None)]\<rparr>"
  unfolding conc_init_def
  apply (rule converse_rtranclp_into_rtranclp, rule conc_step.Call [where t = 0 and x = x and e = None])
  apply (simp_all add: assms)
  apply (rule converse_rtranclp_into_rtranclp, rule conc_step.Call [where t = 1 and x = y and e = None])
  apply (simp_all add: assms)
  apply (rule converse_rtranclp_into_rtranclp, rule conc_step.Lock [where t = 0 and x = x])
  apply (simp_all add: assms)
  apply (rule converse_rtranclp_into_rtranclp, rule conc_step.Lock [where t = 1 and x = y])
  apply (simp_all add: assms)
  apply (rule converse_rtranclp_into_rtranclp, rule conc_step.Shape_ok [where t = 0 and x = x and w = w1])
  apply (simp_all add: assms)
  apply (rule converse_rtranclp_into_rtranclp, rule conc_step.Shape_ok [where t = 1 and x = y and w = w2])
  apply (simp_all add: assms)
  apply (rule converse_rtranclp_into_rtranclp, rule conc_step.Base [where t = 1 and x = y and e = None and b = b1])
  apply (simp_all add: assms)
  apply (rule converse_rtranclp_into_rtranclp, rule conc_step.Base [where t = 0 and x = x and e = None and b = b2])
  apply (simp_all add: assms)
  apply (rule converse_rtranclp_into_rtranclp, rule conc_step.Unlock [where t = 0 and e = None])
  apply (simp_all add: assms)
  apply (rule converse_rtranclp_into_rtranclp, rule conc_step.Unlock [where t = 1 and e = None])
  apply (simp_all add: assms)
  apply (rule rtranclp_refl_eq)
  apply (simp add: fun_eq_iff)
  done

section \<open>The store main builds\<close>

definition store_shape :: "Shaper \<Rightarrow> store_op \<Rightarrow> os action" where
  "store_shape s = run_op (SetRate s) (Remove s)"

definition store_commit :: "store_op \<Rightarrow> memoryStore action" where
  "store_commit = run_op memoryStore_Set memoryStore_Delete"

lemma serial_run_store:
  "serial_run (store_shape s) store_commit h x x' \<Longrightarrow>
     run_ops (store_Set s) (store_Delete s) (map fst h) x = (map fst (filter (\<lambda>(x, e). e = None) h), x')"
  unfolding store_shape_def store_commit_def store_Set_def store_Delete_def by (rule serial_run_run_ops)

lemma store_shape_ok:
  "store_shape s x os = (None, os') \<Longrightarrow> enforced s v0 os' = abs_op x (enforced s v0 os)"
  by (cases x) (auto simp: store_shape_def shaper.SetRate_ok shaper.Remove_ok)

fun op_mark :: "store_op \<Rightarrow> u32" where
  "op_mark (OpSet m r) = m"
| "op_mark (OpDelete m) = m"

text \<open>A call on a user mark whose tc command succeeds.\<close>

lemma store_shape_answered:
  assumes "user_mark (sh_queues s) (op_mark x)" "\<And>t c. cmd_ok (os_reply os t c)"
  shows "\<exists>os'. store_shape s x os = (None, os') \<and> os_reply os' = os_reply os"
  using assms
  by (cases x)
     (auto simp: store_shape_def SetRate_def Remove_def classIDFor_eq and_then_def tc_run_def os_exec_def
        cmd_ok_def Let_def split: prod.splits option.splits)

lemma abs_op_other: "m \<noteq> op_mark x \<Longrightarrow> abs_op x v m = v m"
  by (cases x) auto

lemma serial_run_synced:
  assumes "serial_run (store_shape s) store_commit h (NewMemoryStore, os) (b', os')"
    and "memoryStore_Get m b' = Some r"
  shows "enforced s v0 os' m = Some r"
proof -
  have r: "run_ops (shapedStore_Set (SetRate s) memoryStore_Set) (shapedStore_Delete (Remove s) memoryStore_Delete)
      (map fst h) (NewMemoryStore, os) = (map fst (filter (\<lambda>(x, e). e = None) h), (b', os'))"
    using serial_run_store [OF assms(1)] by (simp add: xstore_defs)
  have "xray.synced s v0 (b', os')"
    using xray.run_ops_synced [OF _ _ r, of v0] NewMemoryStore_inv by (simp add: xray.synced_def)
  with assms(2) show ?thesis by (simp add: xray.synced_def)
qed

section \<open>Properties\<close>

abbreviation eth0_4 :: Shaper where
  "eth0_4 \<equiv> \<lparr>sh_iface = ''eth0'', sh_queues = 4, sh_burstMs = 0\<rparr>"

lemma user_mark_example: "user_mark 4 0x1002a"
  by (simp add: user_mark_def Split_def MinMinor_def word_le_nat_alt)

lemma store_commit_example:
  "store_commit (OpSet 0x1002a 5) NewMemoryStore = (None, \<lparr>ms_entries = [(0x1002a, 5)]\<rparr>)"
  by (simp add: store_commit_def memoryStore_Set_def NewMemoryStore_def)

text \<open>A single \<open>Set\<close> that has returned, as an instance for the theorems.\<close>

lemma conc_example:
  obtains os1 where "conc_reachable True (store_shape eth0_4) store_commit NewMemoryStore (os_always (ok_result []))
    \<lparr>c_lock = None, c_base = \<lparr>ms_entries = [(0x1002a, 5)]\<rparr>, c_shaped = os1, c_call = (\<lambda>_. Returned None),
      c_hist = [(OpSet 0x1002a 5, None)]\<rparr>"
proof -
  obtain os1 where 1: "store_shape eth0_4 (OpSet 0x1002a 5) (os_always (ok_result [])) = (None, os1)"
    using store_shape_answered [of eth0_4 "OpSet 0x1002a 5" "os_always (ok_result [])"] user_mark_example by auto
  show ?thesis
    by (rule that [OF conc_alone [where shape = "store_shape eth0_4" and commit = store_commit,
          OF 1 store_commit_example]])
qed

text \<open>
  C6. Calls from any number of goroutines, interleaved in any way, are serialised by the mutex:
  whenever it is free, the store and the tc state are those reached by running the calls one after
  the other, in the order in which their results became known, and that serial run gives each call
  the result its caller got.
\<close>

theorem store_calls_serialise:
  assumes "conc_reachable True (store_shape s) store_commit b os c" "c_lock c = None"
  shows "serial_run (store_shape s) store_commit (c_hist c) (b, os) (c_base c, c_shaped c) \<and>
    run_ops (store_Set s) (store_Delete s) (map fst (c_hist c)) (b, os) =
      (map fst (filter (\<lambda>(x, e). e = None) (c_hist c)), (c_base c, c_shaped c))"
proof -
  have "serial_run (store_shape s) store_commit (c_hist c) (b, os) (c_base c, c_shaped c)"
    using conc_reachable_inv [OF assms(1)] assms(2) by (simp add: conc_inv_def data_inv_def)
  then show ?thesis by (simp add: serial_run_store)
qed

theorem store_calls_serialise_witness:
  "\<exists>os1. run_ops (store_Set eth0_4) (store_Delete eth0_4) [OpSet 0x1002a 5] (NewMemoryStore, os_always (ok_result []))
     = ([OpSet 0x1002a 5], (\<lparr>ms_entries = [(0x1002a, 5)]\<rparr>, os1))"
proof -
  obtain os1 where r: "conc_reachable True (store_shape eth0_4) store_commit NewMemoryStore (os_always (ok_result []))
    \<lparr>c_lock = None, c_base = \<lparr>ms_entries = [(0x1002a, 5)]\<rparr>, c_shaped = os1, c_call = (\<lambda>_. Returned None),
      c_hist = [(OpSet 0x1002a 5, None)]\<rparr>" by (rule conc_example)
  from store_calls_serialise [OF r] show ?thesis by auto
qed



text \<open>
  C30. The mutex cannot deadlock: whenever some call has not returned, some goroutine in a call can
  take a step of it.
\<close>

theorem store_calls_progress:
  assumes "conc_reachable True (store_shape s) store_commit b os c" "\<forall>e. c_call c t \<noteq> Returned e"
  shows "\<exists>u c'. conc_step True (store_shape s) store_commit c c' \<and>
    (\<forall>e. c_call c u \<noteq> Returned e) \<and> c_call c' u \<noteq> c_call c u"
  by (rule conc_inv_progress [OF conc_reachable_inv [OF assms(1)] assms(2)])

theorem store_calls_progress_witness:
  "\<exists>c t u c'. conc_step True (store_shape eth0_4) store_commit c c' \<and> c_call c t = Waiting (OpDelete 7) \<and>
     c_call c' u \<noteq> c_call c u"
proof -
  let ?i = "conc_init NewMemoryStore (os_always (ok_result []))"
  let ?c = "?i\<lparr>c_call := (c_call ?i)(0 := Waiting (OpDelete 7))\<rparr>"
  have r: "conc_reachable True (store_shape eth0_4) store_commit NewMemoryStore (os_always (ok_result [])) ?c"
    by (rule r_into_rtranclp, rule conc_step.Call [where e = None]) (simp add: conc_init_def)
  have "c_call ?c 0 = Waiting (OpDelete 7)" by simp
  with store_calls_progress [OF r, of 0] show ?thesis by (metis call_phase.distinct(7))
qed


end
