(* ===== verification/Idle_Gc.thy ===== *)
theory Idle_Gc
  imports Store_Conc
begin

text \<open>
  \<open>internal/tcshape/gc.go\<close>: the collector that deletes the classes that have sent nothing for a
  while. \<open>Collect\<close> is the whole function, over any lister and deleter (the locale
  \<open>class_source\<close> has what it relies on, interpreted on the Shaper and the wrapped store). What
  several calls of \<open>Collect\<close> observe together is a list of rounds; the main lemmas say that the
  collector's table holds exactly the counters that have not moved, and since when.
\<close>

section \<open>The collector\<close>

record classSeen =
  cs_bytes :: u64
  cs_since :: time

record IdleCollector =
  ic_idle :: duration
  ic_seen :: "(u32, classSeen) gomap"

definition NewIdleCollector :: "duration \<Rightarrow> IdleCollector" where
  "NewIdleCollector idle = \<lparr>ic_idle = idle, ic_seen = []\<rparr>"

text \<open>The calls of \<open>Delete\<close> a \<open>Collect\<close> makes, with their results. What it logs are the failed
  ones and the number of the others.\<close>

type_synonym delete_calls = "(u32 \<times> err_opt) list"

text \<open>The body of the loop over the classes.\<close>

definition collect_class :: "(u32 \<Rightarrow> 'w action) \<Rightarrow> duration \<Rightarrow> time \<Rightarrow> Class \<Rightarrow>
    (u32, classSeen) gomap \<Rightarrow> 'w \<Rightarrow> delete_calls \<times> (u32, classSeen) gomap \<times> 'w" where
  "collect_class delete_f idle now cl seen w =
     (let m = cl_Mark cl; fresh = gm_set m \<lparr>cs_bytes = cl_Bytes cl, cs_since = now\<rparr> seen
      in case gm_get seen m of
           None \<Rightarrow> ([], fresh, w)
         | Some prev \<Rightarrow>
             if cs_bytes prev \<noteq> cl_Bytes cl then ([], fresh, w)
             else if time_Sub now (cs_since prev) < idle then ([], seen, w)
             else (case delete_f m w of
                     (Some e, w') \<Rightarrow> ([(m, Some e)], seen, w')
                   | (None, w') \<Rightarrow> ([(m, None)], gm_delete m seen, w')))"

fun collect_loop :: "(u32 \<Rightarrow> 'w action) \<Rightarrow> duration \<Rightarrow> time \<Rightarrow> Class list \<Rightarrow>
    (u32, bool) gomap \<Rightarrow> (u32, classSeen) gomap \<Rightarrow> 'w \<Rightarrow>
    delete_calls \<times> (u32, bool) gomap \<times> (u32, classSeen) gomap \<times> 'w" where
  "collect_loop delete_f idle now [] present seen w = ([], present, seen, w)"
| "collect_loop delete_f idle now (cl # cls) present seen w =
     (case collect_class delete_f idle now cl seen w of (calls, seen1, w1) \<Rightarrow>
        (case collect_loop delete_f idle now cls (gm_set (cl_Mark cl) True present) seen1 w1 of
           (calls2, present2, seen2, w2) \<Rightarrow> (calls @ calls2, present2, seen2, w2)))"

definition Collect :: "('w \<Rightarrow> Class list go_result \<times> 'w) \<Rightarrow> (u32 \<Rightarrow> 'w action) \<Rightarrow> time \<Rightarrow>
    IdleCollector \<Rightarrow> 'w \<Rightarrow> delete_calls \<times> IdleCollector \<times> 'w" where
  "Collect lister delete_f now c w =
     (case lister w of
        (Inl e, w') \<Rightarrow> ([], c, w')
      | (Inr classes, w') \<Rightarrow>
          (case collect_loop delete_f (ic_idle c) now classes [] (ic_seen c) w' of
             (calls, present, seen, w'') \<Rightarrow>
               (calls, c\<lparr>ic_seen := gm_delete_if (\<lambda>m _. gm_get present m \<noteq> Some True) seen\<rparr>, w'')))"

section \<open>What a Collect does to one mark\<close>

lemma collect_class_ok:
  "collect_class delete_f idle now cl seen w = (calls, seen', w') \<Longrightarrow> gm_ok seen \<Longrightarrow> gm_ok seen'"
  by (auto simp: collect_class_def Let_def split: option.splits if_splits prod.splits)

lemma collect_loop_ok:
  "collect_loop delete_f idle now cls present seen w = (calls, present', seen', w') \<Longrightarrow> gm_ok seen \<Longrightarrow> gm_ok seen'"
  by (induction cls arbitrary: present seen w calls)
     (auto split: prod.splits dest: collect_class_ok)

lemma collect_loop_present:
  "collect_loop delete_f idle now cls present seen w = (calls, present', seen', w') \<Longrightarrow>
     gm_get present' m = Some True \<longleftrightarrow> m \<in> cl_Mark ` set cls \<or> gm_get present m = Some True"
  by (induction cls arbitrary: present seen w calls) (auto split: prod.splits)

lemma collect_class_other:
  "collect_class delete_f idle now cl seen w = (calls, seen', w') \<Longrightarrow> m \<noteq> cl_Mark cl \<Longrightarrow>
     gm_get seen' m = gm_get seen m \<and> m \<notin> fst ` set calls"
  by (auto simp: collect_class_def Let_def split: option.splits if_splits prod.splits)

lemma collect_loop_other:
  "collect_loop delete_f idle now cls present seen w = (calls, present', seen', w') \<Longrightarrow>
     m \<notin> cl_Mark ` set cls \<Longrightarrow> gm_get seen' m = gm_get seen m \<and> m \<notin> fst ` set calls"
proof (induction cls arbitrary: present seen w calls)
  case (Cons c cls)
  obtain calls1 seen1 w1 where 1: "collect_class delete_f idle now c seen w = (calls1, seen1, w1)"
    by (metis surj_pair)
  obtain calls2 where 2: "collect_loop delete_f idle now cls (gm_set (cl_Mark c) True present) seen1 w1 =
      (calls2, present', seen', w')" and calls: "calls = calls1 @ calls2"
    using Cons.prems(1) 1 by (auto split: prod.splits)
  have "gm_get seen1 m = gm_get seen m \<and> m \<notin> fst ` set calls1"
    using collect_class_other [OF 1] Cons.prems(2) by simp
  with Cons.IH [OF 2] Cons.prems(2) show ?case by (simp add: calls image_Un)
qed simp

text \<open>\<open>due idle now seen cl\<close>: the collector asks for the class's deletion.\<close>

definition due :: "duration \<Rightarrow> time \<Rightarrow> (u32, classSeen) gomap \<Rightarrow> Class \<Rightarrow> bool" where
  "due idle now seen cl = (case gm_get seen (cl_Mark cl) of
     None \<Rightarrow> False
   | Some prev \<Rightarrow> cs_bytes prev = cl_Bytes cl \<and> \<not> time_Sub now (cs_since prev) < idle)"

text \<open>What the table holds for a listed class afterwards.\<close>

definition seen_after :: "time \<Rightarrow> bool \<Rightarrow> classSeen option \<Rightarrow> Class \<Rightarrow> classSeen option" where
  "seen_after now gone before cl =
     (if gone then None
      else case before of
        None \<Rightarrow> Some \<lparr>cs_bytes = cl_Bytes cl, cs_since = now\<rparr>
      | Some prev \<Rightarrow> if cs_bytes prev = cl_Bytes cl then Some prev
                    else Some \<lparr>cs_bytes = cl_Bytes cl, cs_since = now\<rparr>)"

lemma collect_class_this:
  assumes "collect_class delete_f idle now cl seen w = (calls, seen', w')"
  shows "fst ` set calls = (if due idle now seen cl then {cl_Mark cl} else {})"
    "gm_get seen' (cl_Mark cl) =
       seen_after now ((cl_Mark cl, None) \<in> set calls) (gm_get seen (cl_Mark cl)) cl"
  using assms
  by (auto simp: collect_class_def due_def seen_after_def Let_def split: option.splits if_splits prod.splits)

lemma due_cong: "gm_get seen (cl_Mark cl) = gm_get seen' (cl_Mark cl) \<Longrightarrow> due idle now seen cl = due idle now seen' cl"
  by (simp add: due_def)

lemma collect_loop_this:
  assumes "collect_loop delete_f idle now cls present seen w = (calls, present', seen', w')"
    and "distinct (map cl_Mark cls)" "cl \<in> set cls"
  shows "(cl_Mark cl \<in> fst ` set calls \<longleftrightarrow> due idle now seen cl) \<and>
    gm_get seen' (cl_Mark cl) =
      seen_after now ((cl_Mark cl, None) \<in> set calls) (gm_get seen (cl_Mark cl)) cl"
  using assms
proof (induction cls arbitrary: present seen w calls)
  case (Cons c cls)
  obtain calls1 seen1 w1 where 1: "collect_class delete_f idle now c seen w = (calls1, seen1, w1)"
    by (metis surj_pair)
  obtain calls2 where 2: "collect_loop delete_f idle now cls (gm_set (cl_Mark c) True present) seen1 w1 =
      (calls2, present', seen', w')" and calls: "calls = calls1 @ calls2"
    using Cons.prems(1) 1 by (auto split: prod.splits)
  show ?case
  proof (cases "cl = c")
    case True
    then have "cl_Mark cl \<notin> cl_Mark ` set cls" using Cons.prems(2) by simp
    from collect_loop_other [OF 2 this] have o: "gm_get seen' (cl_Mark cl) = gm_get seen1 (cl_Mark cl)"
        "cl_Mark cl \<notin> fst ` set calls2" by auto
    from o(2) have "(cl_Mark cl, None) \<notin> set calls2" by force
    with o collect_class_this [OF 1] True show ?thesis
      by (simp add: calls image_Un)
  next
    case False
    then have mem: "cl \<in> set cls" using Cons.prems(3) by simp
    then have ne: "cl_Mark cl \<noteq> cl_Mark c" using Cons.prems(2) by (force simp: image_iff)
    from collect_class_other [OF 1 ne] have s: "gm_get seen1 (cl_Mark cl) = gm_get seen (cl_Mark cl)"
      and n: "cl_Mark cl \<notin> fst ` set calls1" by auto
    from n have n': "(cl_Mark cl, None) \<notin> set calls1" by force
    from Cons.IH [OF 2 _ mem] Cons.prems(2) s n n' due_cong [OF s] show ?thesis
      by (simp add: calls image_Un)
  qed
qed simp

lemma Collect_failed: "lister w = (Inl e, w1) \<Longrightarrow> Collect lister delete_f now c w = ([], c, w1)"
  by (simp add: Collect_def)

lemma Collect_keeps:
  "Collect lister delete_f now c w = (calls, c', w') \<Longrightarrow>
     ic_idle c' = ic_idle c \<and> (gm_ok (ic_seen c) \<longrightarrow> gm_ok (ic_seen c'))"
  by (auto simp: Collect_def split: prod.splits sum.splits dest: collect_loop_ok)

lemma Collect_listed:
  assumes "lister w = (Inr cls, w1)" "Collect lister delete_f now c w = (calls, c', w')"
    and "gm_ok (ic_seen c)" "distinct (map cl_Mark cls)" "cl \<in> set cls"
  shows "(cl_Mark cl \<in> fst ` set calls \<longleftrightarrow> due (ic_idle c) now (ic_seen c) cl) \<and>
    gm_get (ic_seen c') (cl_Mark cl) =
      seen_after now ((cl_Mark cl, None) \<in> set calls) (gm_get (ic_seen c) (cl_Mark cl)) cl"
proof -
  obtain present seen where l: "collect_loop delete_f (ic_idle c) now cls [] (ic_seen c) w1 = (calls, present, seen, w')"
    and c': "c' = c\<lparr>ic_seen := gm_delete_if (\<lambda>m _. gm_get present m \<noteq> Some True) seen\<rparr>"
    using assms(1,2) by (auto simp: Collect_def split: prod.splits)
  have "gm_get present (cl_Mark cl) = Some True"
    using collect_loop_present [OF l] assms(5) by blast
  then have "gm_get (ic_seen c') (cl_Mark cl) = gm_get seen (cl_Mark cl)"
    using collect_loop_ok [OF l assms(3)] by (simp add: c' gm_get_delete_if split: option.splits)
  with collect_loop_this [OF l assms(4,5)] show ?thesis by simp
qed

lemma Collect_unlisted:
  assumes "lister w = (Inr cls, w1)" "Collect lister delete_f now c w = (calls, c', w')"
    and "gm_ok (ic_seen c)" "m \<notin> cl_Mark ` set cls"
  shows "gm_get (ic_seen c') m = None \<and> m \<notin> fst ` set calls"
proof -
  obtain present seen where l: "collect_loop delete_f (ic_idle c) now cls [] (ic_seen c) w1 = (calls, present, seen, w')"
    and c': "c' = c\<lparr>ic_seen := gm_delete_if (\<lambda>m _. gm_get present m \<noteq> Some True) seen\<rparr>"
    using assms(1,2) by (auto simp: Collect_def split: prod.splits)
  have "gm_get present m \<noteq> Some True" using collect_loop_present [OF l, of m] assms(4) by simp
  with collect_loop_ok [OF l assms(3)] collect_loop_other [OF l assms(4)] show ?thesis
    by (simp add: c' gm_get_delete_if split: option.splits)
qed

section \<open>Successive calls of Collect\<close>

text \<open>One call: the time it read, what the lister returned, the deletions it asked for. A run is
  the list of its rounds, newest first; the traffic, and everything else that happens between
  two calls, is any change of the world.\<close>

record round =
  rd_now :: time
  rd_list :: "Class list go_result"
  rd_calls :: delete_calls

inductive gc_run :: "('w \<Rightarrow> Class list go_result \<times> 'w) \<Rightarrow> (u32 \<Rightarrow> 'w action) \<Rightarrow> duration \<Rightarrow>
    round list \<Rightarrow> IdleCollector \<Rightarrow> bool"
  for lister :: "'w \<Rightarrow> Class list go_result \<times> 'w" and delete_f :: "u32 \<Rightarrow> 'w action" and idle :: duration where
  gc_start: "gc_run lister delete_f idle [] (NewIdleCollector idle)"
| gc_collect: "gc_run lister delete_f idle h c \<Longrightarrow> Collect lister delete_f now c w = (calls, c', w') \<Longrightarrow>
    gc_run lister delete_f idle (\<lparr>rd_now = now, rd_list = fst (lister w), rd_calls = calls\<rparr> # h) c'"

text \<open>The listing has \<open>m\<close> with byte counter \<open>b\<close>; no mark is listed twice.\<close>

definition lists :: "u32 \<Rightarrow> u64 \<Rightarrow> round \<Rightarrow> bool" where
  "lists m b r = (case rd_list r of
     Inl _ \<Rightarrow> False
   | Inr cls \<Rightarrow> list_ex (\<lambda>cl. cl_Mark cl = m \<and> cl_Bytes cl = b) cls)"

definition lists_once :: "Class list go_result \<Rightarrow> bool" where
  "lists_once l = (case l of Inl _ \<Rightarrow> True | Inr cls \<Rightarrow> distinct (map cl_Mark cls))"

text \<open>\<open>unmoved m b t h\<close>: from some round at time \<open>t\<close> on, every round that got a listing has \<open>m\<close>
  with counter \<open>b\<close>, and none deleted it.\<close>

inductive unmoved :: "u32 \<Rightarrow> u64 \<Rightarrow> time \<Rightarrow> round list \<Rightarrow> bool" for m :: u32 and b :: u64 where
  un_first: "lists m b r \<Longrightarrow> (m, None) \<notin> set (rd_calls r) \<Longrightarrow> unmoved m b (rd_now r) (r # h)"
| un_again: "unmoved m b t h \<Longrightarrow> lists m b r \<Longrightarrow> (m, None) \<notin> set (rd_calls r) \<Longrightarrow> unmoved m b t (r # h)"
| un_failed: "unmoved m b t h \<Longrightarrow> rd_list r = Inl e \<Longrightarrow> unmoved m b t (r # h)"

lemma lists_cases:
  assumes "lists m b \<lparr>rd_now = now, rd_list = l, rd_calls = calls\<rparr>"
  obtains cls cl where "l = Inr cls" "cl \<in> set cls" "cl_Mark cl = m" "cl_Bytes cl = b"
  using assms by (auto simp: lists_def list_ex_iff split: sum.splits)

lemma gc_run_ok: "gc_run lister delete_f idle h c \<Longrightarrow> gm_ok (ic_seen c) \<and> ic_idle c = idle"
proof (induction rule: gc_run.induct)
  case (gc_collect h c now w calls c' w')
  with Collect_keeps [OF gc_collect(2)] show ?case by simp
qed (simp add: NewIdleCollector_def)

text \<open>Everything in the table is a counter that has not moved.\<close>

lemma seen_unmoved:
  "gc_run lister delete_f idle h c \<Longrightarrow> \<forall>r\<in>set h. lists_once (rd_list r) \<Longrightarrow>
     gm_get (ic_seen c) m = Some e \<Longrightarrow> unmoved m (cs_bytes e) (cs_since e) h"
proof (induction arbitrary: e rule: gc_run.induct)
  case (gc_collect h c now w calls c' w')
  let ?r = "\<lparr>rd_now = now, rd_list = fst (lister w), rd_calls = calls\<rparr>"
  have ok: "gm_ok (ic_seen c)" using gc_run_ok [OF gc_collect(1)] by simp
  obtain l w1 where lw: "lister w = (l, w1)" by fastforce
  show ?case
  proof (cases l)
    case (Inl err)
    with lw Collect_failed [of lister w err w1 delete_f now c] gc_collect show ?thesis
      by (auto intro: un_failed)
  next
    case (Inr cls)
    have d: "distinct (map cl_Mark cls)" using gc_collect(4) lw Inr by (simp add: lists_once_def)
    have "m \<in> cl_Mark ` set cls"
      using Collect_unlisted [OF _ gc_collect(2) ok, of cls w1 m] lw Inr gc_collect(5) by auto
    then obtain cl where cl: "cl \<in> set cls" "m = cl_Mark cl" by blast
    from Collect_listed [OF _ gc_collect(2) ok d cl(1)] lw Inr gc_collect(5) cl(2)
    have "Some e = seen_after now ((m, None) \<in> set calls) (gm_get (ic_seen c) m) cl" by simp
    then have k: "(m, None) \<notin> set calls" "cs_bytes e = cl_Bytes cl"
        "gm_get (ic_seen c) m = Some e \<or> cs_since e = now"
      by (auto simp: seen_after_def split: if_splits option.splits)
    have "lists m (cs_bytes e) ?r" using cl lw Inr k(2) by (auto simp: lists_def list_ex_iff)
    with k un_first [of m "cs_bytes e" ?r h] un_again [of m "cs_bytes e" "cs_since e" h ?r]
      gc_collect(3,4) show ?thesis by auto
  qed
qed (simp add: NewIdleCollector_def)

text \<open>Every counter that has not moved is in the table, since no later than that.\<close>

inductive_cases gc_run_ConsE: "gc_run lister delete_f idle (r # h) c"

lemma unmoved_time: "unmoved m b t h \<Longrightarrow> t \<in> rd_now ` set h"
  by (induction rule: unmoved.induct) auto

text \<open>One more round that lists the class leaves it in the table.\<close>

lemma listed_seen:
  assumes "gc_run lister delete_f idle h c" "\<forall>r\<in>set (r # h). lists_once (rd_list r)"
    and "sorted_wrt (\<ge>) (map rd_now (r # h))" "gc_run lister delete_f idle (r # h) c'"
    and "Collect lister delete_f now c w = (calls, c', w')"
    and "r = \<lparr>rd_now = now, rd_list = fst (lister w), rd_calls = calls\<rparr>"
    and "lists m b r" "(m, None) \<notin> set calls"
  shows "\<exists>e. gm_get (ic_seen c') m = Some e \<and> cs_bytes e = b \<and>
    (if \<exists>e0. gm_get (ic_seen c) m = Some e0 \<and> cs_bytes e0 = b then gm_get (ic_seen c) m = Some e
     else cs_since e = now)"
proof -
  obtain cls cl where cl: "fst (lister w) = Inr cls" "cl \<in> set cls" "cl_Mark cl = m" "cl_Bytes cl = b"
    using lists_cases [OF assms(7) [unfolded assms(6)]] by blast
  obtain w1 where lw: "lister w = (Inr cls, w1)" using cl(1) by (cases "lister w") auto
  have "distinct (map cl_Mark cls)" using assms(2) cl(1) by (simp add: assms(6) lists_once_def)
  from Collect_listed [OF lw assms(5) conjunct1 [OF gc_run_ok [OF assms(1)]] this cl(2)] assms(8)
  have "gm_get (ic_seen c') m = seen_after now False (gm_get (ic_seen c) m) cl" by (simp add: cl(3))
  then show ?thesis using cl(4)
    by (cases "gm_get (ic_seen c) m"; cases "cs_bytes (the (gm_get (ic_seen c) m)) = b")
       (auto simp: seen_after_def)
qed

lemma unmoved_seen:
  "unmoved m b t h \<Longrightarrow> gc_run lister delete_f idle h c \<Longrightarrow> \<forall>r\<in>set h. lists_once (rd_list r) \<Longrightarrow>
     sorted_wrt (\<ge>) (map rd_now h) \<Longrightarrow>
     \<exists>e. gm_get (ic_seen c) m = Some e \<and> cs_bytes e = b \<and> cs_since e \<le> t"
proof (induction arbitrary: c rule: unmoved.induct)
  case (un_first r h)
  from un_first(3) obtain c0 now w calls w' where c0: "gc_run lister delete_f idle h c0"
      "Collect lister delete_f now c0 w = (calls, c, w')"
      "r = \<lparr>rd_now = now, rd_list = fst (lister w), rd_calls = calls\<rparr>"
    by (rule gc_run_ConsE) blast
  have old: "cs_since e \<le> now" if "gm_get (ic_seen c0) m = Some e" for e
  proof -
    have "cs_since e \<in> rd_now ` set h"
      using unmoved_time [OF seen_unmoved [OF c0(1) _ that]] un_first(4) by simp
    with un_first(5) c0(3) show ?thesis by auto
  qed
  from listed_seen [OF c0(1) un_first(4,5,3) c0(2,3) un_first(1)] un_first(2) c0(3) old show ?case
    by (fastforce split: if_splits)
next
  case (un_again t h r)
  from un_again(5) obtain c0 now w calls w' where c0: "gc_run lister delete_f idle h c0"
      "Collect lister delete_f now c0 w = (calls, c, w')"
      "r = \<lparr>rd_now = now, rd_list = fst (lister w), rd_calls = calls\<rparr>"
    by (rule gc_run_ConsE) blast
  obtain e where e: "gm_get (ic_seen c0) m = Some e" "cs_bytes e = b" "cs_since e \<le> t"
    using un_again(4) [OF c0(1)] un_again(6,7) by auto
  from listed_seen [OF c0(1) un_again(6,7,5) c0(2,3) un_again(2)] un_again(3) c0(3) e show ?case
    by auto
next
  case (un_failed t h r err)
  from un_failed(4) obtain c0 now w calls w' where c0: "gc_run lister delete_f idle h c0"
      "Collect lister delete_f now c0 w = (calls, c, w')"
      "r = \<lparr>rd_now = now, rd_list = fst (lister w), rd_calls = calls\<rparr>"
    by (rule gc_run_ConsE) blast
  obtain w1 where "lister w = (Inl err, w1)" using un_failed(2) c0(3) by (cases "lister w") auto
  from Collect_failed [of lister, OF this] c0(2) have "c = c0" by simp
  with un_failed(3) [OF c0(1)] un_failed(5,6) show ?case by auto
qed

section \<open>What Collect relies on\<close>

text \<open>A source of classes: listing changes no limit, a successful deletion drops the mark's, a
  failed one changes nothing.\<close>

locale class_source =
  fixes cs_List :: "'w \<Rightarrow> Class list go_result \<times> 'w"
    and cs_Delete :: "u32 \<Rightarrow> 'w action"
    and cs_inv :: "'w \<Rightarrow> bool"
    and cs_rates :: "'w \<Rightarrow> (u32 \<rightharpoonup> u32)"
  assumes List_keeps: "cs_inv w \<Longrightarrow> cs_List w = (l, w') \<Longrightarrow> cs_inv w' \<and> cs_rates w' = cs_rates w"
    and Delete_ok: "cs_inv w \<Longrightarrow> cs_Delete m w = (None, w') \<Longrightarrow> cs_inv w' \<and> cs_rates w' = (cs_rates w)(m := None)"
    and Delete_fail: "cs_inv w \<Longrightarrow> cs_Delete m w = (Some e, w') \<Longrightarrow> cs_inv w' \<and> cs_rates w' = cs_rates w"
begin

text \<open>The limits left after the deletions of \<open>calls\<close>.\<close>

abbreviation without :: "delete_calls \<Rightarrow> (u32 \<rightharpoonup> u32) \<Rightarrow> (u32 \<rightharpoonup> u32)" where
  "without calls v \<equiv> (\<lambda>m. if (m, None) \<in> set calls then None else v m)"

lemma collect_class_effect:
  "cs_inv w \<Longrightarrow> collect_class cs_Delete idle now cl seen w = (calls, seen', w') \<Longrightarrow>
     cs_inv w' \<and> cs_rates w' = without calls (cs_rates w)"
  by (auto simp: collect_class_def Let_def split: option.splits if_splits prod.splits
      dest: Delete_ok Delete_fail simp: fun_eq_iff)

lemma collect_loop_effect:
  "cs_inv w \<Longrightarrow> collect_loop cs_Delete idle now cls present seen w = (calls, present', seen', w') \<Longrightarrow>
     cs_inv w' \<and> cs_rates w' = without calls (cs_rates w)"
proof (induction cls arbitrary: present seen w calls)
  case (Cons c cls)
  obtain calls1 seen1 w1 where 1: "collect_class cs_Delete idle now c seen w = (calls1, seen1, w1)"
    by (metis surj_pair)
  obtain calls2 where 2: "collect_loop cs_Delete idle now cls (gm_set (cl_Mark c) True present) seen1 w1 =
      (calls2, present', seen', w')" and calls: "calls = calls1 @ calls2"
    using Cons.prems(2) 1 by (auto split: prod.splits)
  note e1 = collect_class_effect [OF Cons.prems(1) 1]
  from Cons.IH [OF conjunct1 [OF e1] 2] e1 show ?case by (auto simp: calls fun_eq_iff)
qed simp

lemma Collect_effect:
  assumes "cs_inv w" "Collect cs_List cs_Delete now c w = (calls, c', w')"
  shows "cs_inv w' \<and> cs_rates w' = without calls (cs_rates w)"
proof -
  obtain l w1 where 1: "cs_List w = (l, w1)" by fastforce
  from List_keeps [OF assms(1) 1] have k: "cs_inv w1" "cs_rates w1 = cs_rates w" by auto
  show ?thesis
  proof (cases l)
    case (Inl e)
    with assms(2) 1 k show ?thesis by (simp add: Collect_def)
  next
    case (Inr cls)
    obtain present seen where "collect_loop cs_Delete (ic_idle c) now cls [] (ic_seen c) w1 = (calls, present, seen, w')"
      using assms(2) 1 Inr by (auto simp: Collect_def split: prod.splits)
    from collect_loop_effect [OF k(1) this] k(2) show ?thesis by (simp add: fun_eq_iff)
  qed
qed

end

text \<open>The lister and deleter main passes: the Shaper, and the store that wraps it.\<close>

definition store_Classes :: "Shaper \<Rightarrow> xstore \<Rightarrow> Class list go_result \<times> xstore" where
  "store_Classes s x = (case Classes s (snd x) of (l, os') \<Rightarrow> (l, (fst x, os')))"

lemma Classes_enforced:
  assumes "Classes s os = (l, os')"
  shows "enforced s v0 os' = enforced s v0 os"
proof -
  obtain v where "runJSON ''tc'' [''-j'', ''-s'', ''class'', ''show'', ''dev'', sh_iface s] os = (v, os')"
    using assms by (auto simp: Classes_def split: prod.splits sum.splits)
  then obtain r where x: "extends os [(tc_cmd [''-j'', ''-s'', ''class'', ''show'', ''dev'', sh_iface s], r)] os'"
    by (rule runJSON_cases)
  have "class_effect iface (tc_cmd [''-j'', ''-s'', ''class'', ''show'', ''dev'', dev], r) v = v" for iface dev v
    by (simp add: class_effect_def)
  then show ?thesis unfolding enforced_extends [OF x] by (simp add: enforced_def fun_eq_iff)
qed

interpretation stored: class_source "store_Classes s" "store_Delete s"
    "\<lambda>x. memoryStore_inv (fst x)" "\<lambda>x m. store_Get m x" for s
proof unfold_locales
  fix w w' :: xstore and m e
  assume i: "memoryStore_inv (fst w)"
  { assume d: "store_Delete s m w = (None, w')"
    from xstore.Delete_inv [OF i d] xstore.Delete_ok [OF i d]
    show "memoryStore_inv (fst w') \<and> (\<lambda>m. store_Get m w') = (\<lambda>m. store_Get m w)(m := None)"
      by auto }
  { assume d: "store_Delete s m w = (Some e, w')"
    from xstore.Delete_inv [OF i d] xstore.Delete_fail [OF i d]
    show "memoryStore_inv (fst w') \<and> (\<lambda>m. store_Get m w') = (\<lambda>m. store_Get m w)" by auto }
qed (auto simp: store_Classes_def store_Get_def shapedStore_Get_def split: prod.splits)

interpretation in_tc: class_source "store_Classes s" "store_Delete s"
    "\<lambda>x. memoryStore_inv (fst x)" "\<lambda>x. enforced s v0 (snd x)" for s v0
proof unfold_locales
  fix w w' :: xstore and m e
  assume i: "memoryStore_inv (fst w)"
  obtain b os b' os' where w: "w = (b, os)" "w' = (b', os')" by (cases w; cases w')
  { assume d: "store_Delete s m w = (None, w')"
    from xstore.Delete_inv [OF i d] xray.Delete_outcome [of b s m os None b' os' v0] i d w
    show "memoryStore_inv (fst w') \<and> enforced s v0 (snd w') = (enforced s v0 (snd w))(m := None)"
      by (simp add: store_Delete_def) }
  { assume d: "store_Delete s m w = (Some e, w')"
    from xstore.Delete_inv [OF i d] xray.Delete_outcome [of b s m os "Some e" b' os' v0] i d w
    show "memoryStore_inv (fst w') \<and> enforced s v0 (snd w') = enforced s v0 (snd w)"
      by (simp add: store_Delete_def) }
qed (auto simp: store_Classes_def dest: Classes_enforced split: prod.splits)

section \<open>Properties\<close>

text \<open>
  C11. A \<open>Collect\<close> asks for the deletion of a listed class exactly when some earlier call, at least
  the idle period ago, listed it with the byte counter it has now, and every call since then that
  got a listing showed that same counter and none deleted it: no class that has sent anything within
  the period is deleted, and none that has been idle longer than it escapes. The clock does not go
  back and no listing has a mark twice.
\<close>

theorem Collect_deletes_idle:
  assumes "gc_run lister delete_f idle h c" "\<forall>r\<in>set h. lists_once (rd_list r)"
    and "sorted_wrt (\<ge>) (now # map rd_now h)" "0 < idle" "idle \<le> max_duration"
    and "lister w = (Inr cls, w1)" "distinct (map cl_Mark cls)" "cl \<in> set cls"
  shows "cl_Mark cl \<in> fst ` set (fst (Collect lister delete_f now c w)) \<longleftrightarrow>
    (\<exists>t. unmoved (cl_Mark cl) (cl_Bytes cl) t h \<and> idle \<le> now - t)"
proof -
  note ok = gc_run_ok [OF assms(1)]
  obtain calls c' w' where C: "Collect lister delete_f now c w = (calls, c', w')" by (metis surj_pair)
  have "cl_Mark cl \<in> fst ` set calls \<longleftrightarrow> due idle now (ic_seen c) cl"
    using Collect_listed [OF assms(6) C conjunct1 [OF ok] assms(7,8)] ok by simp
  also have "\<dots> \<longleftrightarrow> (\<exists>e. gm_get (ic_seen c) (cl_Mark cl) = Some e \<and> cs_bytes e = cl_Bytes cl \<and> idle \<le> now - cs_since e)"
    using time_Sub_less_iff [of idle now] assms(4,5)
    by (auto simp: due_def min_duration_def not_less split: option.splits)
  also have "\<dots> \<longleftrightarrow> (\<exists>t. unmoved (cl_Mark cl) (cl_Bytes cl) t h \<and> idle \<le> now - t)"
  proof
    assume "\<exists>e. gm_get (ic_seen c) (cl_Mark cl) = Some e \<and> cs_bytes e = cl_Bytes cl \<and> idle \<le> now - cs_since e"
    with seen_unmoved [OF assms(1,2)] show "\<exists>t. unmoved (cl_Mark cl) (cl_Bytes cl) t h \<and> idle \<le> now - t"
      by metis
  next
    assume "\<exists>t. unmoved (cl_Mark cl) (cl_Bytes cl) t h \<and> idle \<le> now - t"
    then obtain t where t: "unmoved (cl_Mark cl) (cl_Bytes cl) t h" "idle \<le> now - t" by blast
    from unmoved_seen [OF t(1) assms(1,2)] assms(3) obtain e where
      "gm_get (ic_seen c) (cl_Mark cl) = Some e" "cs_bytes e = cl_Bytes cl" "cs_since e \<le> t" by auto
    with t(2) show "\<exists>e. gm_get (ic_seen c) (cl_Mark cl) = Some e \<and> cs_bytes e = cl_Bytes cl \<and> idle \<le> now - cs_since e"
      by (intro exI [of _ e]) auto
  qed
  finally show ?thesis by (simp add: C)
qed

text \<open>A class with no traffic, the collector's second look at it six hours after the first.\<close>

abbreviation idle_class :: Class where
  "idle_class \<equiv> \<lparr>cl_Mark = 0x1002a, cl_RateBytesPerSec = 125000, cl_Bytes = 7\<rparr>"

lemma gc_example:
  "gc_run (\<lambda>w :: unit. (Inr [idle_class], w)) (\<lambda>m w. (None, w)) (360 * time_Minute)
     [\<lparr>rd_now = 0, rd_list = Inr [idle_class], rd_calls = []\<rparr>]
     \<lparr>ic_idle = 360 * time_Minute, ic_seen = [(0x1002a, \<lparr>cs_bytes = 7, cs_since = 0\<rparr>)]\<rparr>"
  using gc_collect [OF gc_start, of "\<lambda>w :: unit. (Inr [idle_class], w)" "\<lambda>m w. (None, w)" 0 "360 * time_Minute" "()" "[]"
      "\<lparr>ic_idle = 360 * time_Minute, ic_seen = [(0x1002a, \<lparr>cs_bytes = 7, cs_since = 0\<rparr>)]\<rparr>" "()"]
  by (simp add: NewIdleCollector_def Collect_def collect_class_def Let_def gm_delete_if_def)

theorem Collect_deletes_idle_witness:
  "0x1002a \<in> fst ` set (fst (Collect (\<lambda>w. (Inr [idle_class], w)) (\<lambda>m w. (None, w)) (360 * time_Minute)
     \<lparr>ic_idle = 360 * time_Minute, ic_seen = [(0x1002a, \<lparr>cs_bytes = 7, cs_since = 0\<rparr>)]\<rparr> ()))"
proof -
  have "unmoved 0x1002a 7 (rd_now \<lparr>rd_now = 0, rd_list = Inr [idle_class], rd_calls = []\<rparr>)
      [\<lparr>rd_now = 0, rd_list = Inr [idle_class], rd_calls = []\<rparr>]"
    by (rule un_first) (simp_all add: lists_def)
  then show ?thesis
    using Collect_deletes_idle [OF gc_example, of "360 * time_Minute" "()" "[idle_class]" "()" idle_class]
    by (auto simp: lists_once_def max_duration_def)
qed



end
