(* ===== verification/Users.thy ===== *)
theory Users
  imports Mark
begin

text \<open>
  \<open>internal/webhook/users.go\<close>: the table of the emails seen recently, with their marks. Each
  method holds the mutex for its whole body (after reading the clock), so it is one step here; a
  panic of \<open>mark.For\<close> is \<open>None\<close>.
\<close>

section \<open>The table\<close>

record userEntry =
  ue_mark :: u32
  ue_lastSeen :: time

record Users =
  us_queues :: int
  us_users :: "(string, userEntry) gomap"

definition NewUsers :: "int \<Rightarrow> Users" where
  "NewUsers queues = \<lparr>us_queues = queues, us_users = []\<rparr>"

definition Users_Mark :: "time \<Rightarrow> string \<Rightarrow> Users \<Rightarrow> (u32 \<times> Users) option" where
  "Users_Mark now email u =
     (if email = [] then Some (0, u)
      else case (case gm_get (us_users u) email of
                   Some e \<Rightarrow> Some e
                 | None \<Rightarrow> map_option (\<lambda>m. \<lparr>ue_mark = m, ue_lastSeen = 0\<rparr>) (For email (us_queues u))) of
             None \<Rightarrow> None
           | Some e \<Rightarrow>
               Some (ue_mark e, u\<lparr>us_users := gm_set email (e\<lparr>ue_lastSeen := now\<rparr>) (us_users u)\<rparr>))"

definition Users_Marks :: "Users \<Rightarrow> (string, u32) gomap" where
  "Users_Marks u = map (\<lambda>(email, e). (email, ue_mark e)) (us_users u)"

definition Users_Prune :: "time \<Rightarrow> duration \<Rightarrow> Users \<Rightarrow> Users" where
  "Users_Prune now idle u =
     (let cutoff = now - idle
      in u\<lparr>us_users := gm_delete_if (\<lambda>_ e. ue_lastSeen e < cutoff) (us_users u)\<rparr>)"

section \<open>Lookups\<close>

lemma gm_get_map_snd: "gm_get (map (\<lambda>(k, v). (k, f v)) m) k = map_option f (gm_get m k)"
  by (induction m) auto

lemma Users_Marks_get: "gm_get (Users_Marks u) email = map_option ue_mark (gm_get (us_users u) email)"
  by (simp add: Users_Marks_def gm_get_map_snd)

lemma Users_Marks_ok: "gm_ok (us_users u) \<Longrightarrow> gm_ok (Users_Marks u)"
  by (simp add: gm_ok_def Users_Marks_def comp_def case_prod_beta)

text \<open>Every entry has its email's mark.\<close>

definition users_ok :: "Users \<Rightarrow> bool" where
  "users_ok u \<longleftrightarrow> gm_ok (us_users u) \<and>
     list_all (\<lambda>(email, e). email \<noteq> [] \<and> For email (us_queues u) = Some (ue_mark e)) (us_users u)"

lemma NewUsers_ok: "users_ok (NewUsers queues)"
  by (simp add: users_ok_def NewUsers_def)

lemma users_ok_get:
  "users_ok u \<Longrightarrow> gm_get (us_users u) email = Some e \<Longrightarrow> email \<noteq> [] \<and> For email (us_queues u) = Some (ue_mark e)"
  by (auto simp: users_ok_def list_all_iff dest: map_of_SomeD)

lemma users_okI:
  assumes "gm_ok (us_users u)"
    and "\<And>email e. gm_get (us_users u) email = Some e \<Longrightarrow> email \<noteq> [] \<and> For email (us_queues u) = Some (ue_mark e)"
  shows "users_ok u"
  using assms by (auto simp: users_ok_def list_all_iff gm_get_in_set)

text \<open>The result and the effect of \<open>Mark\<close>: the mark is always the hash of the email.\<close>

lemma Users_Mark_cases:
  assumes "users_ok u" "Users_Mark now email u = r"
  obtains (empty) "email = []" "r = Some (0, u)"
  | (panic) "email \<noteq> []" "For email (us_queues u) = None" "r = None"
  | (seen) m where "email \<noteq> []" "For email (us_queues u) = Some m"
      "r = Some (m, u\<lparr>us_users := gm_set email \<lparr>ue_mark = m, ue_lastSeen = now\<rparr> (us_users u)\<rparr>)"
proof (cases "email = []")
  case True
  with assms(2) empty show ?thesis by (simp add: Users_Mark_def)
next
  case ne: False
  show ?thesis
  proof (cases "gm_get (us_users u) email")
    case None
    with ne assms(2) panic seen show ?thesis
      by (cases "For email (us_queues u)") (simp_all add: Users_Mark_def)
  next
    case (Some e)
    with users_ok_get [OF assms(1) Some] ne assms(2) seen [of "ue_mark e"] show ?thesis
      by (cases e) (simp add: Users_Mark_def)
  qed
qed

lemma users_ok_set:
  assumes "users_ok u" "email \<noteq> []" "For email (us_queues u) = Some m"
  shows "users_ok (u\<lparr>us_users := gm_set email \<lparr>ue_mark = m, ue_lastSeen = now\<rparr> (us_users u)\<rparr>)"
proof (rule users_okI)
  show "gm_ok (us_users (u\<lparr>us_users := gm_set email \<lparr>ue_mark = m, ue_lastSeen = now\<rparr> (us_users u)\<rparr>))"
    using assms(1) by (simp add: users_ok_def gm_ok_set)
qed (use users_ok_get [OF assms(1)] assms(2,3) in \<open>auto split: if_splits\<close>)

lemma Users_Mark_ok:
  assumes "users_ok u" "Users_Mark now email u = Some (m, u')"
  shows "users_ok u' \<and> us_queues u' = us_queues u"
  using assms
proof (cases rule: Users_Mark_cases)
  case (seen m')
  with users_ok_set [OF assms(1) seen(1,2)] show ?thesis by simp
qed (use assms in simp_all)

lemma Users_Prune_get:
  "users_ok u \<Longrightarrow> gm_get (us_users (Users_Prune now idle u)) email =
     (case gm_get (us_users u) email of None \<Rightarrow> None | Some e \<Rightarrow> if ue_lastSeen e < now - idle then None else Some e)"
  by (simp add: Users_Prune_def users_ok_def gm_get_delete_if)

lemma Users_Prune_ok:
  assumes "users_ok u"
  shows "users_ok (Users_Prune now idle u) \<and> us_queues (Users_Prune now idle u) = us_queues u"
proof
  show q: "us_queues (Users_Prune now idle u) = us_queues u" by (simp add: Users_Prune_def)
  show "users_ok (Users_Prune now idle u)"
  proof (rule users_okI)
    show "gm_ok (us_users (Users_Prune now idle u))"
      using assms by (simp add: Users_Prune_def users_ok_def gm_ok_delete_if)
  qed (use users_ok_get [OF assms] q in \<open>auto simp: Users_Prune_get [OF assms] split: option.splits if_splits\<close>)
qed

section \<open>Histories\<close>

text \<open>A call of one of the methods that change the table, with the time it read.\<close>

datatype users_event = Saw time string | Pruned time duration

fun users_step :: "users_event \<Rightarrow> Users \<Rightarrow> Users option" where
  "users_step (Saw now email) u = map_option snd (Users_Mark now email u)"
| "users_step (Pruned now idle) u = Some (Users_Prune now idle u)"

text \<open>Newest event first.\<close>

fun users_run :: "users_event list \<Rightarrow> Users \<Rightarrow> Users option" where
  "users_run [] u = Some u"
| "users_run (ev # h) u = Option.bind (users_run h u) (users_step ev)"

text \<open>The email's last webhook came at \<open>t\<close>, and no pruning since forgot it.\<close>

definition remembered :: "users_event list \<Rightarrow> string \<Rightarrow> time \<Rightarrow> bool" where
  "remembered h email t \<longleftrightarrow> (\<exists>newer older. h = newer @ Saw t email # older \<and>
     (\<forall>t'. Saw t' email \<notin> set newer) \<and> (\<forall>p idle. Pruned p idle \<in> set newer \<longrightarrow> p - idle \<le> t))"

lemma remembered_Nil: "\<not> remembered [] email t"
  by (simp add: remembered_def)

lemma remembered_Cons:
  "remembered (ev # h) email t \<longleftrightarrow>
     (ev = Saw t email \<or> (remembered h email t \<and> (\<forall>t'. ev \<noteq> Saw t' email) \<and>
        (\<forall>p idle. ev = Pruned p idle \<longrightarrow> p - idle \<le> t)))"
  (is "?l \<longleftrightarrow> ?r")
proof
  assume ?l
  then obtain newer older where n: "ev # h = newer @ Saw t email # older"
      "\<forall>t'. Saw t' email \<notin> set newer" "\<forall>p idle. Pruned p idle \<in> set newer \<longrightarrow> p - idle \<le> t"
    unfolding remembered_def by blast
  show ?r
  proof (cases newer)
    case (Cons x newer')
    with n have "h = newer' @ Saw t email # older" by simp
    with n Cons show ?thesis unfolding remembered_def by auto
  qed (use n in simp)
next
  assume r: ?r
  show ?l
  proof (cases "ev = Saw t email")
    case True
    then show ?thesis unfolding remembered_def by (intro exI [of _ "[]"] exI [of _ h]) simp
  next
    case False
    with r obtain newer older where "h = newer @ Saw t email # older"
      "\<forall>t'. Saw t' email \<notin> set newer" "\<forall>p idle. Pruned p idle \<in> set newer \<longrightarrow> p - idle \<le> t"
      unfolding remembered_def by blast
    with False r show ?thesis
      unfolding remembered_def by (intro exI [of _ "ev # newer"] exI [of _ older]) auto
  qed
qed

lemma remembered_unique: "remembered h email t \<Longrightarrow> remembered h email t' \<Longrightarrow> t = t'"
  by (induction h) (auto simp: remembered_Nil remembered_Cons)

text \<open>The table holds the emails remembered, with the time they were last seen.\<close>

lemma users_run_table:
  "users_run h (NewUsers queues) = Some u \<Longrightarrow>
     users_ok u \<and> us_queues u = queues \<and>
     (\<forall>email t. map_option ue_lastSeen (gm_get (us_users u) email) = Some t \<longleftrightarrow>
       email \<noteq> [] \<and> remembered h email t)"
proof (induction h arbitrary: u)
  case Nil
  then have "u = NewUsers queues" by simp
  then show ?case using NewUsers_ok [of queues] by (simp add: NewUsers_def remembered_Nil)
next
  case (Cons ev h)
  then obtain u0 where u0: "users_run h (NewUsers queues) = Some u0" "users_step ev u0 = Some u"
    by (auto split: bind_splits)
  from Cons.IH [OF u0(1)] have ok: "users_ok u0" and q: "us_queues u0 = queues"
    and tb: "\<And>email t. map_option ue_lastSeen (gm_get (us_users u0) email) = Some t \<longleftrightarrow>
       email \<noteq> [] \<and> remembered h email t" by auto
  show ?case
  proof (cases ev)
    case (Saw now email)
    then obtain m where m: "Users_Mark now email u0 = Some (m, u)" using u0(2) by auto
    note ok' = Users_Mark_ok [OF ok m]
    from ok m show ?thesis
    proof (cases rule: Users_Mark_cases)
      case empty
      then show ?thesis using ok q tb Saw by (auto simp: remembered_Cons)
    next
      case (seen m')
      then show ?thesis using ok' q tb Saw by (auto simp: remembered_Cons)
    qed simp
  next
    case (Pruned p idle)
    then have u: "u = Users_Prune p idle u0" using u0(2) by simp
    have "map_option ue_lastSeen (gm_get (us_users u) email) = Some t \<longleftrightarrow>
        map_option ue_lastSeen (gm_get (us_users u0) email) = Some t \<and> p - idle \<le> t" for email t
      unfolding u by (auto simp: Users_Prune_get [OF ok] split: option.splits)
    with Users_Prune_ok [OF ok, of p idle] q tb Pruned show ?thesis
      unfolding u by (auto simp: remembered_Cons)
  qed
qed

section \<open>Properties\<close>

text \<open>
  C20. After any sequence of webhooks and prunings, \<open>Marks\<close> has exactly the emails whose last
  webhook came no earlier than the cutoff of every pruning since, each once and with the mark its
  hash gives: the table never holds a mark of its own, so forgetting an email and seeing it again
  cannot change its mark.
\<close>

theorem users_table_exact:
  assumes "users_run h (NewUsers queues) = Some u"
  shows "gm_ok (Users_Marks u) \<and>
    (\<forall>email. gm_get (Users_Marks u) email =
      (if email \<noteq> [] \<and> (\<exists>t. remembered h email t) then For email queues else None))"
proof -
  from users_run_table [OF assms] have ok: "users_ok u" and q: "us_queues u = queues"
    and tb: "\<And>email t. map_option ue_lastSeen (gm_get (us_users u) email) = Some t \<longleftrightarrow>
       email \<noteq> [] \<and> remembered h email t" by auto
  have "gm_get (Users_Marks u) email =
      (if email \<noteq> [] \<and> (\<exists>t. remembered h email t) then For email queues else None)" for email
  proof (cases "gm_get (us_users u) email")
    case None
    with tb [of email] show ?thesis by (auto simp: Users_Marks_get)
  next
    case (Some e)
    with tb [of email "ue_lastSeen e"] users_ok_get [OF ok Some] q show ?thesis
      by (auto simp: Users_Marks_get)
  qed
  moreover have "gm_ok (Users_Marks u)" using ok Users_Marks_ok by (simp add: users_ok_def)
  ultimately show ?thesis by blast
qed

theorem users_table_exact_witness:
  "\<exists>u. users_run [Pruned 100 50, Saw 60 ''a'', Saw 10 ''b''] (NewUsers 48) = Some u \<and>
     gm_get (Users_Marks u) ''a'' = For ''a'' 48 \<and> gm_get (Users_Marks u) ''b'' = None"
proof -
  have q: "1 \<le> (48 :: int)" "48 \<le> MaxQueues" by (simp_all add: MaxQueues_def)
  obtain a where a: "For ''a'' 48 = Some a" by (rule For_unat [OF q])
  obtain b where b: "For ''b'' 48 = Some b" by (rule For_unat [OF q])
  obtain u where u: "users_run [Pruned 100 50, Saw 60 ''a'', Saw 10 ''b''] (NewUsers 48) = Some u"
    by (simp add: NewUsers_def Users_Mark_def a b)
  from users_table_exact [OF u] show ?thesis
    by (intro exI [of _ u] conjI u) (auto simp: remembered_Cons remembered_Nil)
qed

end
