(* ===== verification/Recent.thy ===== *)
theory Recent
  imports Prelude
begin

text \<open>
  \<open>internal/webhook/recent.go\<close>: the table of the connections marked in the last \<open>ttl\<close>. Its keys
  (\<open>markedConn\<close> in the code) are a type parameter here; \<open>Webhook\<close> has the type. The specification is a
  plain history of the additions; the code's sweeping of expired entries must not show.
\<close>

section \<open>The table\<close>

record 'c recentMarks =
  rm_ttl :: duration
  rm_marked :: "('c, time) gomap"
  rm_lastSweep :: time

definition newRecentMarks :: "duration \<Rightarrow> 'c recentMarks" where
  "newRecentMarks ttl = \<lparr>rm_ttl = ttl, rm_marked = [], rm_lastSweep = 0\<rparr>"

definition recent_contains :: "time \<Rightarrow> 'c \<Rightarrow> 'c recentMarks \<Rightarrow> bool" where
  "recent_contains now c r =
     (if rm_ttl r = 0 then False
      else case gm_get (rm_marked r) c of
             None \<Rightarrow> False
           | Some at \<Rightarrow> time_Sub now at < rm_ttl r)"

definition recent_add :: "time \<Rightarrow> 'c \<Rightarrow> 'c recentMarks \<Rightarrow> 'c recentMarks" where
  "recent_add now c r =
     (if rm_ttl r = 0 then r
      else let r1 = r\<lparr>rm_marked := gm_set c now (rm_marked r)\<rparr>
           in if time_Sub now (rm_lastSweep r1) < rm_ttl r1 then r1
              else r1\<lparr>rm_marked := gm_delete_if (\<lambda>_ at. rm_ttl r1 \<le> time_Sub now at) (rm_marked r1),
                      rm_lastSweep := now\<rparr>)"

section \<open>Histories of additions\<close>

text \<open>Newest first: the time and the connection of each \<open>add\<close>.\<close>

fun recent_run :: "(time \<times> 'c) list \<Rightarrow> duration \<Rightarrow> 'c recentMarks" where
  "recent_run [] ttl = newRecentMarks ttl"
| "recent_run ((now, c) # h) ttl = recent_add now c (recent_run h ttl)"

text \<open>When \<open>c\<close> was last added.\<close>

fun last_added :: "(time \<times> 'c) list \<Rightarrow> 'c \<Rightarrow> time option" where
  "last_added [] c = None"
| "last_added ((now, c') # h) c = (if c' = c then Some now else last_added h c)"

definition clock_ok :: "time \<Rightarrow> (time \<times> 'c) list \<Rightarrow> bool" where
  "clock_ok now h \<longleftrightarrow> sorted_wrt (\<ge>) (now # map fst h)"

definition ttl_ok :: "duration \<Rightarrow> bool" where
  "ttl_ok ttl \<longleftrightarrow> 0 \<le> ttl \<and> ttl \<le> max_duration"

lemma clock_ok_Cons: "clock_ok now ((t, c) # h) \<longleftrightarrow> t \<le> now \<and> clock_ok t h"
  by (auto simp: clock_ok_def)

lemma clock_ok_later: "clock_ok now h \<Longrightarrow> now \<le> now' \<Longrightarrow> clock_ok now' h"
  by (force simp: clock_ok_def)

lemma last_added_time: "clock_ok now h \<Longrightarrow> last_added h c = Some t \<Longrightarrow> t \<le> now"
  by (induction h arbitrary: now) (force simp: clock_ok_Cons split: if_splits)+

lemma time_Sub_less_ttl: "ttl_ok ttl \<Longrightarrow> time_Sub t u < ttl \<longleftrightarrow> t - u < ttl"
  by (rule time_Sub_less_iff) (auto simp: ttl_ok_def min_duration_def)

lemma recent_run_ok: "gm_ok (rm_marked (recent_run h ttl)) \<and> rm_ttl (recent_run h ttl) = ttl"
  by (induction h)
     (auto simp: newRecentMarks_def recent_add_def Let_def gm_ok_set gm_ok_delete_if)

lemma recent_add_get:
  assumes "gm_ok (rm_marked r)" "rm_ttl r \<noteq> 0"
  shows "gm_get (rm_marked (recent_add now c r)) k =
    (let at = (if k = c then Some now else gm_get (rm_marked r) k)
     in if time_Sub now (rm_lastSweep r) < rm_ttl r then at
        else case at of None \<Rightarrow> None | Some t \<Rightarrow> if rm_ttl r \<le> time_Sub now t then None else Some t)"
  using assms by (auto simp: recent_add_def Let_def gm_get_delete_if split: option.splits)

text \<open>The table holds the last addition of every connection, but for some that have expired.\<close>

lemma recent_table:
  assumes "ttl_ok ttl" "ttl \<noteq> 0"
  shows "clock_ok now h \<Longrightarrow>
    (case gm_get (rm_marked (recent_run h ttl)) c of
       Some t \<Rightarrow> last_added h c = Some t
     | None \<Rightarrow> (case last_added h c of None \<Rightarrow> True | Some t \<Rightarrow> ttl \<le> now - t))"
proof (induction h arbitrary: now)
  case Nil
  then show ?case by (simp add: newRecentMarks_def)
next
  case (Cons x h)
  obtain t c' where x: "x = (t, c')" by (cases x)
  have ck: "t \<le> now" "clock_ok t h" using Cons.prems by (simp_all add: x clock_ok_Cons)
  note IH = Cons.IH [OF ck(2)]
  have "0 < ttl" using assms by (simp add: ttl_ok_def)
  with ck(1) IH show ?case
    using recent_run_ok [of h ttl] assms(2) time_Sub_less_ttl [OF assms(1), of t]
    by (auto simp: x recent_add_get Let_def not_less [symmetric] split: option.splits if_splits)
qed

text \<open>No entry stays twice as long as it counts.\<close>

text \<open>The swept table: the last sweep is less than \<open>ttl\<close> old, and no entry is more than \<open>ttl\<close>
  older than it.\<close>

definition swept :: "duration \<Rightarrow> time \<Rightarrow> 'c recentMarks \<Rightarrow> bool" where
  "swept ttl now r \<longleftrightarrow> rm_lastSweep r \<le> now \<and> now - rm_lastSweep r < ttl \<and>
     (\<forall>k t. gm_get (rm_marked r) k = Some t \<longrightarrow> rm_lastSweep r - t < ttl)"

lemma recent_add_swept:
  assumes "ttl_ok ttl" "ttl \<noteq> 0" "gm_ok (rm_marked r)" "rm_ttl r = ttl" "rm_lastSweep r \<le> now"
    and "\<And>k t. gm_get (rm_marked r) k = Some t \<Longrightarrow> rm_lastSweep r - t < ttl"
  shows "swept ttl now (recent_add now c r)"
proof -
  have pos: "0 < ttl" using assms(1,2) by (simp add: ttl_ok_def)
  have rt: "rm_ttl r \<noteq> 0" using assms(2,4) by simp
  show ?thesis
  proof (cases "now - rm_lastSweep r < ttl")
    case True
    then have l: "rm_lastSweep (recent_add now c r) = rm_lastSweep r"
      using assms(2,4) time_Sub_less_ttl [OF assms(1)] by (simp add: recent_add_def Let_def)
    have "rm_lastSweep r - t < ttl" if "gm_get (rm_marked (recent_add now c r)) k = Some t" for k t
      using that True assms(4,5,6) pos time_Sub_less_ttl [OF assms(1)]
      by (simp add: recent_add_get [OF assms(3) rt] Let_def split: if_splits)
    with l True assms(5) show ?thesis by (simp add: swept_def)
  next
    case False
    then have l: "rm_lastSweep (recent_add now c r) = now"
      using assms(2,4) time_Sub_less_ttl [OF assms(1)] by (simp add: recent_add_def Let_def)
    have "now - t < ttl" if "gm_get (rm_marked (recent_add now c r)) k = Some t" for k t
      using that False assms(4) pos time_Sub_less_ttl [OF assms(1), of now t] time_Sub_less_ttl [OF assms(1), of now "rm_lastSweep r"]
      by (simp add: recent_add_get [OF assms(3) rt] Let_def not_less [symmetric] split: if_splits option.splits)
    with l pos show ?thesis by (simp add: swept_def)
  qed
qed

lemma recent_run_swept:
  assumes "ttl_ok ttl" "ttl \<noteq> 0"
  shows "clock_ok now h \<Longrightarrow> \<forall>x\<in>set h. 0 \<le> fst x \<Longrightarrow> h \<noteq> [] \<Longrightarrow>
    swept ttl (fst (hd h)) (recent_run h ttl)"
proof (induction h arbitrary: now)
  case (Cons x h)
  obtain t c where x: "x = (t, c)" by (cases x)
  note ok = recent_run_ok [of h ttl]
  have ck: "clock_ok t h" using Cons.prems(1) by (simp add: x clock_ok_Cons)
  show ?case
  proof (cases h)
    case Nil
    have "swept ttl t (recent_add t c (recent_run h ttl))"
      using Cons.prems(2) by (intro recent_add_swept assms) (simp_all add: Nil x newRecentMarks_def)
    then show ?thesis by (simp add: x)
  next
    case (Cons y h')
    then have "swept ttl (fst y) (recent_run h ttl)" using Cons.IH [OF ck] Cons.prems(2) by simp
    moreover have "fst y \<le> t" using ck Cons by (cases y) (simp add: clock_ok_Cons)
    ultimately have "swept ttl t (recent_add t c (recent_run h ttl))"
      using ok by (intro recent_add_swept assms) (auto simp: swept_def)
    then show ?thesis by (simp add: x)
  qed
qed simp

lemma recent_contains_run:
  assumes "ttl_ok ttl" "clock_ok now h"
  shows "recent_contains now c (recent_run h ttl) \<longleftrightarrow>
    ttl \<noteq> 0 \<and> (\<exists>t. last_added h c = Some t \<and> now - t < ttl)"
proof (cases "ttl = 0")
  case False
  with recent_table [OF assms(1) False assms(2), of c] recent_run_ok [of h ttl] time_Sub_less_ttl [OF assms(1), of now]
  show ?thesis by (auto simp: recent_contains_def split: option.splits)
qed (use recent_run_ok [of h ttl] in \<open>simp add: recent_contains_def\<close>)

lemma recent_contains_log:
  assumes "ttl_ok ttl" "clock_ok now h"
  shows "recent_contains now c (recent_run h ttl) \<longleftrightarrow> (\<exists>t. last_added h c = Some t \<and> now - t < ttl)"
proof -
  have "\<not> now - t < 0" if "last_added h c = Some t" for t
    using last_added_time [OF assms(2) that] by simp
  then show ?thesis using recent_contains_run [OF assms] by (cases "ttl = 0") auto
qed

section \<open>Properties\<close>

text \<open>
  C21. \<open>contains\<close> answers exactly whether the connection was last added less than \<open>ttl\<close> ago, whatever
  was added in between and however often the table was swept; with a zero \<open>ttl\<close> it never does.
\<close>

theorem recent_contains_exact:
  assumes "ttl_ok ttl" "clock_ok now h"
  shows "recent_contains now c (recent_run h ttl) \<longleftrightarrow>
    ttl \<noteq> 0 \<and> (\<exists>t. last_added h c = Some t \<and> now - t < ttl)"
  by (rule recent_contains_run [OF assms])

theorem recent_contains_exact_witness:
  "recent_contains 14 ''a'' (recent_run [(7, ''b''), (5, ''a'')] 10) \<and>
   \<not> recent_contains 15 ''a'' (recent_run [(7, ''b''), (5, ''a'')] 10)"
  using recent_contains_exact [of 10 14 "[(7, ''b''), (5, ''a'')]" "''a''"]
    recent_contains_exact [of 10 15 "[(7, ''b''), (5, ''a'')]" "''a''"]
  by (simp add: ttl_ok_def max_duration_def clock_ok_def)

text \<open>
  The table does not grow with the number of webhooks ever received: right after an addition
  every entry is less than twice \<open>ttl\<close> old.
\<close>

lemma recent_entries_young:
  assumes "ttl_ok ttl" "clock_ok now ((now, c) # h)" "\<forall>x\<in>set ((now, c) # h). 0 \<le> fst x"
    and "gm_get (rm_marked (recent_run ((now, c) # h) ttl)) k = Some t"
  shows "now - t < 2 * ttl"
proof (cases "ttl = 0")
  case True
  have off: "recent_add t k r = r" if "rm_ttl r = 0" for t k and r :: "'a recentMarks"
    using that by (simp add: recent_add_def)
  have "rm_marked (recent_run h 0) = []" for h :: "(time \<times> 'a) list"
    by (induction h) (auto simp: newRecentMarks_def off recent_run_ok)
  with True assms(4) show ?thesis using recent_run_ok [of h 0] by (simp add: recent_add_def)
next
  case False
  from recent_run_swept [OF assms(1) False assms(2,3)] assms(4) show ?thesis
    by (force simp: swept_def)
qed

end
