(* ===== verification/Go_Netip.thy ===== *)
theory Go_Netip
  imports Go_Strings
begin

text \<open>
  What the program uses of Go's \<open>net/netip\<close> and \<open>net\<close>: parsing \<open>ip:port\<close> texts (IPv4, IPv6 with
  \<open>::\<close>, an embedded IPv4 tail, a zone), \<open>Unmap\<close>, \<open>AsSlice\<close>, and \<open>net.IP\<close>'s \<open>To4\<close>, \<open>To16\<close> and
  \<open>IsUnspecified\<close>. Addresses are their bytes, most significant first. A parse error is \<open>None\<close>:
  its text only goes to the log.
\<close>

section \<open>Addresses\<close>

datatype Addr = NoAddr | Addr4 "u8 list" | Addr6 "u8 list" string

record AddrPort =
  ap_Addr :: Addr
  ap_Port :: u16

definition v4mapped :: "u8 list" where
  "v4mapped = replicate 10 0 @ [0xff, 0xff]"

fun Is4 :: "Addr \<Rightarrow> bool" where "Is4 (Addr4 _) = True" | "Is4 _ = False"
fun Is6 :: "Addr \<Rightarrow> bool" where "Is6 (Addr6 _ _) = True" | "Is6 _ = False"

fun Is4In6 :: "Addr \<Rightarrow> bool" where
  "Is4In6 (Addr6 b z) = (take 12 b = v4mapped)"
| "Is4In6 _ = False"

fun Unmap :: "Addr \<Rightarrow> Addr" where
  "Unmap (Addr6 b z) = (if take 12 b = v4mapped then Addr4 (drop 12 b) else Addr6 b z)"
| "Unmap a = a"

text \<open>A nil slice is the empty list.\<close>

fun AsSlice :: "Addr \<Rightarrow> u8 list" where
  "AsSlice NoAddr = []"
| "AsSlice (Addr4 b) = b"
| "AsSlice (Addr6 b z) = b"

section \<open>net.IP\<close>

type_synonym IP = "u8 list"

definition To4 :: "IP \<Rightarrow> IP option" where
  "To4 ip = (if length ip = 4 then Some ip
     else if length ip = 16 \<and> take 12 ip = v4mapped then Some (drop 12 ip) else None)"

definition To16 :: "IP \<Rightarrow> IP option" where
  "To16 ip = (if length ip = 4 then Some (v4mapped @ ip) else if length ip = 16 then Some ip else None)"

definition ip_Equal :: "IP \<Rightarrow> IP \<Rightarrow> bool" where
  "ip_Equal ip x = (if length ip = length x then ip = x
     else if length ip = 4 \<and> length x = 16 then take 12 x = v4mapped \<and> ip = drop 12 x
     else if length ip = 16 \<and> length x = 4 then take 12 ip = v4mapped \<and> drop 12 ip = x
     else False)"

definition IsUnspecified :: "IP \<Rightarrow> bool" where
  "IsUnspecified ip \<longleftrightarrow> ip_Equal ip (v4mapped @ replicate 4 0) \<or> ip_Equal ip (replicate 16 0)"

section \<open>Parsing\<close>

text \<open>The four fields of a dotted quad: the character before, the value and the number of
  digits of the field so far, the fields finished.\<close>

fun ipv4_fields :: "string \<Rightarrow> char option \<Rightarrow> nat \<Rightarrow> nat \<Rightarrow> u8 list \<Rightarrow> u8 list option" where
  "ipv4_fields [] prev val digLen fs =
     (if length fs < 3 then None else Some (fs @ [of_nat val]))"
| "ipv4_fields (c # cs) prev val digLen fs =
     (case digit_val c of
        Some d \<Rightarrow>
          if d < 10
          then if digLen = 1 \<and> val = 0 then None
               else if 255 < val * 10 + d then None
               else ipv4_fields cs (Some c) (val * 10 + d) (digLen + 1) fs
          else None
      | None \<Rightarrow>
          if c = CHR ''.''
          then if prev = None \<or> cs = [] \<or> prev = Some (CHR ''.'') then None
               else if length fs = 3 then None
               else ipv4_fields cs (Some c) 0 0 (fs @ [of_nat val])
          else None)"

abbreviation parse_ipv4 :: "string \<Rightarrow> u8 list option" where
  "parse_ipv4 s \<equiv> ipv4_fields s None 0 0 []"

text \<open>A group of at most four hexadecimal digits: their number, their value, the rest.\<close>

fun hex_group :: "string \<Rightarrow> nat \<Rightarrow> nat \<Rightarrow> (nat \<times> nat \<times> string) option" where
  "hex_group [] off acc = Some (off, acc, [])"
| "hex_group (c # cs) off acc =
     (case digit_val c of
        Some d \<Rightarrow> if d < 16 then if 3 < off then None else hex_group cs (off + 1) (acc * 16 + d)
                 else Some (off, acc, c # cs)
      | None \<Rightarrow> Some (off, acc, c # cs))"

text \<open>The loop over the groups: what is left, the bytes so far, where \<open>::\<close> stood.\<close>

function ipv6_loop :: "string \<Rightarrow> u8 list \<Rightarrow> nat option \<Rightarrow> (string \<times> u8 list \<times> nat option) option" where
  "ipv6_loop s ip ellipsis =
     (if 16 \<le> length ip then Some (s, ip, ellipsis)
      else case hex_group s 0 0 of
        None \<Rightarrow> None
      | Some (off, acc, rest) \<Rightarrow>
          let ip' = ip @ [of_nat (acc div 256), of_nat (acc mod 256)] in
          if off = 0 then None
          else (case rest of
            [] \<Rightarrow> Some ([], ip', ellipsis)
          | c # s1 \<Rightarrow>
              if c = CHR ''.''
              then if ellipsis = None \<and> length ip \<noteq> 12 then None
                   else if 16 < length ip + 4 then None
                   else map_option (\<lambda>f. ([], ip @ f, ellipsis)) (parse_ipv4 s)
              else if c \<noteq> CHR '':'' then None
              else (case s1 of
                [] \<Rightarrow> None
              | c1 # s2 \<Rightarrow>
                  if c1 = CHR '':''
                  then if ellipsis \<noteq> None then None
                       else if s2 = [] then Some ([], ip', Some (length ip'))
                       else ipv6_loop s2 ip' (Some (length ip'))
                  else ipv6_loop s1 ip' ellipsis)))"
  by pat_completeness auto
termination by (relation "measure (\<lambda>(s, ip, ellipsis). 16 - length ip)") auto

declare ipv6_loop.simps [simp del]

definition expand_ellipsis :: "u8 list \<Rightarrow> nat option \<Rightarrow> u8 list option" where
  "expand_ellipsis ip ellipsis =
     (if length ip < 16
      then case ellipsis of
             None \<Rightarrow> None
           | Some e \<Rightarrow> Some (take e ip @ replicate (16 - length ip) 0 @ drop e ip)
      else if ellipsis \<noteq> None then None else Some ip)"

definition parse_ipv6 :: "string \<Rightarrow> Addr option" where
  "parse_ipv6 inp =
     (case (case Cut inp (CHR ''%'') of
              None \<Rightarrow> Some (inp, [])
            | Some (s, zone) \<Rightarrow> if zone = [] then None else Some (s, zone)) of
        None \<Rightarrow> None
      | Some (s, zone) \<Rightarrow>
          let leading = HasPrefix s ''::''; s1 = (if leading then drop 2 s else s) in
          if leading \<and> s1 = [] then Some (Addr6 (replicate 16 0) zone)
          else (case ipv6_loop s1 [] (if leading then Some 0 else None) of
             None \<Rightarrow> None
           | Some (rest, ip, ellipsis) \<Rightarrow>
               if rest \<noteq> [] then None
               else map_option (\<lambda>b. Addr6 b zone) (expand_ellipsis ip ellipsis)))"

definition ParseAddr :: "string \<Rightarrow> Addr option" where
  "ParseAddr s =
     (case dropWhile (\<lambda>c. c \<notin> {CHR ''.'', CHR '':'', CHR ''%''}) s of
        [] \<Rightarrow> None
      | c # _ \<Rightarrow> if c = CHR ''.'' then map_option Addr4 (parse_ipv4 s)
                else if c = CHR '':'' then parse_ipv6 s
                else None)"

text \<open>The text before and after the last \<open>:\<close>.\<close>

definition cut_last :: "string \<Rightarrow> (string \<times> string) option" where
  "cut_last s = map_option (\<lambda>(a, b). (rev b, rev a)) (Cut (rev s) (CHR '':''))"

definition splitAddrPort :: "string \<Rightarrow> (string \<times> string \<times> bool) option" where
  "splitAddrPort s =
     (case cut_last s of
        None \<Rightarrow> None
      | Some (ip, port) \<Rightarrow>
          if ip = [] \<or> port = [] then None
          else if hd ip = CHR ''[''
          then if length ip < 2 \<or> last ip \<noteq> CHR '']'' then None
               else Some (butlast (tl ip), port, True)
          else Some (ip, port, False))"

definition ParseAddrPort :: "string \<Rightarrow> AddrPort option" where
  "ParseAddrPort s =
     (case splitAddrPort s of
        None \<Rightarrow> None
      | Some (ip, port, v6) \<Rightarrow>
          (case ParseUint port 10 16 of
             None \<Rightarrow> None
           | Some p \<Rightarrow>
               (case ParseAddr ip of
                  None \<Rightarrow> None
                | Some a \<Rightarrow>
                    if v6 \<and> Is4 a then None
                    else if \<not> v6 \<and> Is6 a then None
                    else Some \<lparr>ap_Addr = a, ap_Port = of_nat p\<rparr>)))"

section \<open>Lengths\<close>

lemma ipv4_fields_length: "ipv4_fields s prev val n fs = Some b \<Longrightarrow> length fs \<le> 3 \<Longrightarrow> length b = 4"
  by (induction s arbitrary: prev val n fs) (auto split: if_splits option.splits)

lemma ipv6_loop_length:
  "ipv6_loop s ip e = Some (rest, b, e') \<Longrightarrow> even (length ip) \<Longrightarrow> length ip \<le> 16 \<Longrightarrow> length b \<le> 16"
proof (induction s ip e rule: ipv6_loop.induct)
  case (1 s ip e)
  show ?case
  proof (cases "16 \<le> length ip")
    case True
    with 1(3-) show ?thesis by (simp add: ipv6_loop.simps [of s])
  next
    case False
    have l: "length ip + 2 \<le> 16" using False 1(4) by presburger
    from 1(3) False obtain off acc r where g: "hex_group s 0 0 = Some (off, acc, r)"
      by (auto simp: ipv6_loop.simps [of s] split: option.splits)
    show ?thesis
    proof (cases r)
      case Nil
      with 1(3) False g l show ?thesis by (auto simp: ipv6_loop.simps [of s] Let_def split: if_splits)
    next
      case (Cons c s1)
      show ?thesis
      proof (cases "c = CHR ''.''")
        case True
        with 1(3) False g Cons show ?thesis
          by (auto simp: ipv6_loop.simps [of s] Let_def dest!: ipv4_fields_length split: if_splits)
      next
        case False
        note nd = this
        show ?thesis
        proof (cases s1)
          case Nil
          with 1(3) \<open>\<not> 16 \<le> length ip\<close> nd g Cons show ?thesis
            by (auto simp: ipv6_loop.simps [of s] Let_def split: if_splits)
        next
          case (Cons c1 s2)
          note st = 1(3) [unfolded ipv6_loop.simps [of s]]
          from st \<open>\<not> 16 \<le> length ip\<close> nd g \<open>r = c # s1\<close> Cons l
            1(1) [OF \<open>\<not> 16 \<le> length ip\<close> g refl refl refl _ \<open>r = c # s1\<close> nd _ Cons]
            1(2) [OF \<open>\<not> 16 \<le> length ip\<close> g refl refl refl _ \<open>r = c # s1\<close> nd _ Cons]
            1(4)
          show ?thesis by (auto simp: Let_def split: if_splits)
        qed
      qed
    qed
  qed
qed

lemma parse_ipv6_length: "parse_ipv6 s = Some a \<Longrightarrow> \<exists>b z. a = Addr6 b z \<and> length b = 16"
  by (fastforce simp: parse_ipv6_def Let_def expand_ellipsis_def split: option.splits if_splits
      dest!: ipv6_loop_length)

lemma ParseAddr_length:
  "ParseAddr s = Some a \<Longrightarrow> case a of NoAddr \<Rightarrow> False | Addr4 b \<Rightarrow> length b = 4 | Addr6 b z \<Rightarrow> length b = 16"
  by (auto simp: ParseAddr_def split: list.splits if_splits dest: ipv4_fields_length parse_ipv6_length)

section \<open>Printed addresses\<close>

text \<open>\<open>net.JoinHostPort\<close> puts a host with a colon in brackets.\<close>

definition fmt_ipv4 :: "u8 list \<Rightarrow> string" where
  "fmt_ipv4 b = Strings_Join (map (\<lambda>x. fmt_d (unat x)) b) ''.''"

definition JoinHostPort :: "string \<Rightarrow> string \<Rightarrow> string" where
  "JoinHostPort host port =
     (if CHR '':'' \<in> set host then ''['' @ host @ '']:'' @ port else host @ '':'' @ port)"

lemma unat_lt2p8: "unat (w :: u8) < 256"
  using unsigned_less [of w] by simp

lemma digit_char_not_dot [simp]:
  assumes "d < 36"
  shows "digit_char d \<noteq> CHR ''.''" "digit_char d \<noteq> CHR ''%''" "digit_char d \<noteq> CHR ''[''" "digit_char d \<noteq> CHR '']''"
  using assms by (intro of_char_neqI; simp add: of_char_digit_char)+

lemma fmt_base_small: "n < b \<Longrightarrow> fmt_base b n = [digit_char n]"
  by (subst fmt_base.simps) simp

lemma fmt_d_more: "\<not> n < 10 \<Longrightarrow> fmt_d n = fmt_d (n div 10) @ [digit_char (n mod 10)]"
  by (subst fmt_base.simps) simp

lemma fmt_d_byte:
  assumes "n < 256"
  obtains (one) "n < 10" "fmt_d n = [digit_char n]"
  | (two) d f where "0 < d" "d < 10" "f < 10" "n = 10 * d + f" "fmt_d n = [digit_char d, digit_char f]"
  | (three) d e f where "0 < d" "d < 10" "e < 10" "f < 10" "n = 100 * d + 10 * e + f"
      "fmt_d n = [digit_char d, digit_char e, digit_char f]"
proof (cases "n < 10")
  case True
  with one show ?thesis by (simp add: fmt_base.simps)
next
  case nt: False
  show ?thesis
  proof (cases "n < 100")
    case True
    have e: "n = 10 * (n div 10) + n mod 10" by simp
    have q: "0 < n div 10" "n div 10 < 10" using nt True by linarith+
    have d: "fmt_d n = [digit_char (n div 10), digit_char (n mod 10)]"
      using nt q by (simp add: fmt_d_more [of n] fmt_base_small)
    from two [OF q _ e d] show ?thesis by simp
  next
    case f: False
    have e: "n = 100 * (n div 10 div 10) + 10 * (n div 10 mod 10) + n mod 10"
      using mult_div_mod_eq [of 10 n] mult_div_mod_eq [of 10 "n div 10"] by linarith
    have b: "0 < n div 10 div 10" "n div 10 div 10 < 10" using f assms by linarith+
    have d: "fmt_d n = [digit_char (n div 10 div 10), digit_char (n div 10 mod 10), digit_char (n mod 10)]"
      using nt b f by (simp add: fmt_d_more [of n] fmt_d_more [of "n div 10"] fmt_base_small)
    from three [OF b _ _ e d] show ?thesis by simp
  qed
qed

lemma ipv4_fields_byte:
  assumes "n < 256"
  obtains c k where "c \<noteq> CHR ''.''" "\<And>prev fs rest. ipv4_fields (fmt_d n @ rest) prev 0 0 fs = ipv4_fields rest (Some c) n k fs"
  using assms
proof (cases rule: fmt_d_byte)
  case one
  then show ?thesis by (intro that [of "digit_char n" 1]) simp_all
next
  case (two d f)
  then show ?thesis using assms
    by (intro that [of "digit_char f" "Suc (Suc 0)"]) (simp_all add: mult.commute)
next
  case (three d e f)
  then show ?thesis using assms
    by (intro that [of "digit_char f" "Suc (Suc (Suc 0))"]) (simp_all add: algebra_simps)
qed

lemma digit_val_dot [simp]: "digit_val CHR ''.'' = None" "digit_val CHR '':'' = None"
  by code_simp+

text \<open>A printed IPv4 address parses back.\<close>

lemma parse_ipv4_fmt: "parse_ipv4 (fmt_ipv4 [a, b, c, d]) = Some [a, b, c, d]"
proof -
  obtain ca ka where a: "ca \<noteq> CHR ''.''"
      "\<And>prev fs rest. ipv4_fields (fmt_d (unat a) @ rest) prev 0 0 fs = ipv4_fields rest (Some ca) (unat a) ka fs"
    by (rule ipv4_fields_byte [OF unat_lt2p8 [of a]]) blast
  obtain cb kb where b: "cb \<noteq> CHR ''.''"
      "\<And>prev fs rest. ipv4_fields (fmt_d (unat b) @ rest) prev 0 0 fs = ipv4_fields rest (Some cb) (unat b) kb fs"
    by (rule ipv4_fields_byte [OF unat_lt2p8 [of b]]) blast
  obtain cc kc where c: "cc \<noteq> CHR ''.''"
      "\<And>prev fs rest. ipv4_fields (fmt_d (unat c) @ rest) prev 0 0 fs = ipv4_fields rest (Some cc) (unat c) kc fs"
    by (rule ipv4_fields_byte [OF unat_lt2p8 [of c]]) blast
  obtain cd kd where d: "cd \<noteq> CHR ''.''"
      "\<And>prev fs rest. ipv4_fields (fmt_d (unat d) @ rest) prev 0 0 fs = ipv4_fields rest (Some cd) (unat d) kd fs"
    by (rule ipv4_fields_byte [OF unat_lt2p8 [of d]]) blast
  have "parse_ipv4 (fmt_ipv4 [a, b, c, d]) =
      ipv4_fields (fmt_d (unat d) @ []) (Some CHR ''.'') 0 0 [a, b, c]"
    using a b c by (simp add: fmt_ipv4_def)
  also have "\<dots> = Some [a, b, c, d]" by (subst d) simp
  finally show ?thesis .
qed

lemma hex_group_byte:
  assumes "n < 256"
  obtains off acc where "0 < off" "\<And>rest. hex_group (fmt_d n @ CHR ''.'' # rest) 0 0 = Some (off, acc, CHR ''.'' # rest)"
  using assms
proof (cases rule: fmt_d_byte)
  case one
  then show ?thesis by (intro that [of 1 n]) simp_all
next
  case (two d f)
  then show ?thesis by (intro that [of "Suc (Suc 0)" "d * 16 + f"]) simp_all
next
  case (three d e f)
  then show ?thesis
    by (intro that [of "Suc (Suc (Suc 0))" "(d * 16 + e) * 16 + f"]) simp_all
qed

text \<open>So does its 4-in-6 form, to the mapped address.\<close>

lemma fmt_ipv4_4: "fmt_ipv4 [a, b, c, d] =
    fmt_d (unat a) @ CHR ''.'' # (fmt_d (unat b) @ ''.'' @ fmt_d (unat c) @ ''.'' @ fmt_d (unat d))"
  by (simp add: fmt_ipv4_def)

lemma digit_val_f: "digit_val CHR ''f'' = Some 15"
  by code_simp

lemma fmt_d_Cons: obtains x xs where "fmt_d n = digit_char x # xs" "x < 10"
proof -
  obtain y ys where y: "fmt_d n = y # ys" by (cases "fmt_d n") simp_all
  have "y \<in> set (fmt_base 10 n)" using y by simp
  then obtain d where "d < 10" "y = digit_char d" by (rule set_fmt_base [rotated 2]) simp_all
  with y that show ?thesis by blast
qed

lemma ipv6_loop_mapped:
  "ipv6_loop (''ffff:'' @ fmt_ipv4 [a, b, c, d]) [] (Some 0) = Some ([], [0xff, 0xff, a, b, c, d], Some 0)"
proof -
  obtain off acc where h: "0 < off"
      "\<And>rest. hex_group (fmt_d (unat a) @ CHR ''.'' # rest) 0 0 = Some (off, acc, CHR ''.'' # rest)"
    by (rule hex_group_byte [OF unat_lt2p8 [of a]]) blast
  have h4: "hex_group (fmt_ipv4 [a, b, c, d]) 0 0 =
      Some (off, acc, CHR ''.'' # (fmt_d (unat b) @ ''.'' @ fmt_d (unat c) @ ''.'' @ fmt_d (unat d)))"
    unfolding fmt_ipv4_4 by (rule h(2))
  have "ipv6_loop (fmt_ipv4 [a, b, c, d]) [0xff, 0xff] (Some 0) = Some ([], [0xff, 0xff, a, b, c, d], Some 0)"
    using h(1) by (subst ipv6_loop.simps) (simp add: h4 parse_ipv4_fmt Let_def)
  moreover obtain x xs where "fmt_ipv4 [a, b, c, d] = digit_char x # xs" "x < 10"
    by (rule fmt_d_Cons [of "unat a"]) (auto simp: fmt_ipv4_4 intro: that)
  ultimately show ?thesis
    by (subst ipv6_loop.simps) (simp add: digit_val_f Let_def)
qed

lemma cut_last_append: "CHR '':'' \<notin> set y \<Longrightarrow> cut_last (x @ CHR '':'' # y) = Some (x, y)"
  by (simp add: cut_last_def)

text \<open>A printed IPv4 address has only digits and dots.\<close>

lemma set_fmt_d: "c \<in> set (fmt_d n) \<Longrightarrow> \<exists>d<10. c = digit_char d"
  by (erule set_fmt_base [rotated 2]) auto

lemma fmt_ipv4_chars:
  "c \<in> set (fmt_ipv4 [a, b, c0, d]) \<Longrightarrow> c = CHR ''.'' \<or> (\<exists>e<10. c = digit_char e)"
  by (auto simp: fmt_ipv4_4 dest: set_fmt_d)

lemma fmt_ipv4_without [simp]:
  "CHR '':'' \<notin> set (fmt_ipv4 [a, b, c, d])" "CHR ''%'' \<notin> set (fmt_ipv4 [a, b, c, d])"
proof -
  have "e < 10 \<Longrightarrow> CHR '':'' \<noteq> digit_char e \<and> CHR ''%'' \<noteq> digit_char e" for e
    using digit_char_neq(2) [THEN not_sym, of e] digit_char_not_dot(2) [THEN not_sym, of e] by simp
  then show "CHR '':'' \<notin> set (fmt_ipv4 [a, b, c, d])" "CHR ''%'' \<notin> set (fmt_ipv4 [a, b, c, d])"
    by (auto dest!: fmt_ipv4_chars)
qed

lemma ParseAddr_fmt_ipv4: "ParseAddr (fmt_ipv4 [a, b, c, d]) = Some (Addr4 [a, b, c, d])"
proof -
  have "dropWhile (\<lambda>x. x \<noteq> CHR ''.'' \<and> x \<noteq> CHR '':'' \<and> x \<noteq> CHR ''%'') (fmt_d (unat a) @ CHR ''.'' # r) = CHR ''.'' # r" for r
    by (subst dropWhile_append2) (auto dest!: set_fmt_d)
  then have "dropWhile (\<lambda>x. x \<notin> {CHR ''.'', CHR '':'', CHR ''%''}) (fmt_ipv4 [a, b, c, d]) =
      CHR ''.'' # (fmt_d (unat b) @ ''.'' @ fmt_d (unat c) @ ''.'' @ fmt_d (unat d))"
    by (simp add: fmt_ipv4_4)
  then show ?thesis unfolding ParseAddr_def by (simp only: list.case parse_ipv4_fmt) simp
qed

lemma ParseAddrPort_ipv4:
  assumes "p < 65536"
  shows "ParseAddrPort (fmt_ipv4 [a, b, c, d] @ '':'' @ fmt_d p) =
    Some \<lparr>ap_Addr = Addr4 [a, b, c, d], ap_Port = of_nat p\<rparr>"
proof -
  obtain x xs where x: "fmt_ipv4 [a, b, c, d] = digit_char x # xs" "x < 10"
    by (rule fmt_d_Cons [of "unat a"]) (auto simp: fmt_ipv4_4 intro: that)
  have "splitAddrPort (fmt_ipv4 [a, b, c, d] @ '':'' @ fmt_d p) = Some (fmt_ipv4 [a, b, c, d], fmt_d p, False)"
  proof -
    have "fmt_ipv4 [a, b, c, d] \<noteq> []" "hd (fmt_ipv4 [a, b, c, d]) \<noteq> CHR ''[''" using x by simp_all
    then show ?thesis by (simp add: splitAddrPort_def cut_last_append)
  qed
  then show ?thesis using assms by (simp add: ParseAddrPort_def ParseAddr_fmt_ipv4)
qed

lemma ParseAddr_mapped: "ParseAddr (''::ffff:'' @ fmt_ipv4 [a, b, c, d]) = Some (Addr6 (v4mapped @ [a, b, c, d]) [])"
proof -
  have "Cut (''::ffff:'' @ fmt_ipv4 [a, b, c, d]) CHR ''%'' = None"
  proof -
    have "Cut s x = None" if "x \<notin> set s" for s x using that by (induction s) auto
    then show ?thesis by simp
  qed
  then show ?thesis using ipv6_loop_mapped [of a b c d]
    by (simp add: ParseAddr_def parse_ipv6_def HasPrefix_def expand_ellipsis_def v4mapped_def numeral_eq_Suc)
qed

lemma ParseAddrPort_mapped:
  assumes "p < 65536"
  shows "ParseAddrPort (''[::ffff:'' @ fmt_ipv4 [a, b, c, d] @ '']:'' @ fmt_d p) =
    Some \<lparr>ap_Addr = Addr6 (v4mapped @ [a, b, c, d]) [], ap_Port = of_nat p\<rparr>"
proof -
  have "cut_last ((''[::ffff:'' @ fmt_ipv4 [a, b, c, d] @ '']'') @ CHR '':'' # fmt_d p) =
      Some (''[::ffff:'' @ fmt_ipv4 [a, b, c, d] @ '']'', fmt_d p)"
    by (rule cut_last_append) simp
  then have "splitAddrPort (''[::ffff:'' @ fmt_ipv4 [a, b, c, d] @ '']:'' @ fmt_d p) =
      Some (''::ffff:'' @ fmt_ipv4 [a, b, c, d], fmt_d p, True)"
    by (simp add: splitAddrPort_def butlast_append)
  then show ?thesis using assms by (simp add: ParseAddrPort_def ParseAddr_mapped [simplified])
qed

lemma Unmap_not_mapped: "\<not> Is4In6 (Unmap a)"
  by (cases a) auto

end
