(* ===== verification/Go_Http.thy ===== *)
theory Go_Http
  imports Go_Json
begin

text \<open>
  What the handlers use of \<open>net/http\<close>: a response is its status code and its body; a request is
  its method, its clean path split into decoded segments, and its body. Bodies written with
  \<open>json.NewEncoder\<close> are kept as trees, those of \<open>http.Error\<close> as text with its final newline.
  \<open>json_err\<close>, an argument of the handlers that put it in a response, is the text of the error the
  JSON package reports for a body it rejects.
\<close>

datatype http_body = NoBody | TextBody string | JsonBody json

record response =
  rs_status :: nat
  rs_body :: http_body

record request =
  rq_method :: string
  rq_path :: "string list"
  rq_body :: string

definition http_status :: "nat \<Rightarrow> response" where
  "http_status code = \<lparr>rs_status = code, rs_body = NoBody\<rparr>"

definition http_Error :: "string \<Rightarrow> nat \<Rightarrow> response" where
  "http_Error msg code = \<lparr>rs_status = code, rs_body = TextBody (msg @ [CHR 0x0A])\<rparr>"

end
