(* ===== verification/Webhook.thy ===== *)
theory Webhook
  imports Users Recent Go_Netip Go_Http
begin

text \<open>
  \<open>internal/webhook/webhook.go\<close>: the receiver of Xray's webhooks. \<open>ServeHTTP\<close> is the whole handler
  for one request, over any \<open>Marker\<close> and any \<open>RateSetter\<close> (functions on a world \<open>'w\<close>); its outcome
  names the return it took, \<open>respond\<close> gives the response written there. The queue for the
  provisioning goroutine is part of the state; \<open>Provision\<close> has the goroutine and the
  interleavings.
\<close>

section \<open>Events\<close>

record event =
  ev_Email :: "string option"
  ev_Network :: "string option"
  ev_Source :: "string option"
  ev_InboundLocal :: "string option"

definition zero_event :: event where
  "zero_event = \<lparr>ev_Email = None, ev_Network = None, ev_Source = None, ev_InboundLocal = None\<rparr>"

definition dec_event :: "event decoder" where
  "dec_event = dec_struct False
     [(''email'', dec_field ev_Email ev_Email_update (dec_ptr [] dec_string)),
      (''network'', dec_field ev_Network ev_Network_update (dec_ptr [] dec_string)),
      (''source'', dec_field ev_Source ev_Source_update (dec_ptr [] dec_string)),
      (''inboundLocal'', dec_field ev_InboundLocal ev_InboundLocal_update (dec_ptr [] dec_string))]"

definition parseAddrPort :: "string \<Rightarrow> AddrPort option" where
  "parseAddrPort s =
     (case ParseAddrPort s of
        None \<Rightarrow> None
      | Some ap \<Rightarrow> Some \<lparr>ap_Addr = Unmap (ap_Addr ap), ap_Port = ap_Port ap\<rparr>)"

section \<open>The handler\<close>

record markedConn =
  mc_src :: AddrPort
  mc_dst :: AddrPort
  mc_mark :: u32

definition provisionQueueSize :: nat where
  "provisionQueueSize = 16384"

text \<open>\<open>queued\<close> is a \<open>sync.Map\<close> used as a set, \<open>provisionQueue\<close> a buffered channel.\<close>

record 'w Handler =
  h_users :: Users
  h_world :: 'w
  h_recent :: "markedConn recentMarks"
  h_queued :: "u32 set"
  h_provisionQueue :: "u32 list"

text \<open>A \<open>Marker\<close> is its \<open>SetMark\<close>, a \<open>RateSetter\<close> here its \<open>Get\<close> (\<open>Set\<close> is only called by the
  goroutine); a nil one is \<open>None\<close>.\<close>

type_synonym 'w marker = "string \<Rightarrow> IP \<Rightarrow> u16 \<Rightarrow> IP \<Rightarrow> u16 \<Rightarrow> u32 \<Rightarrow> 'w action"
type_synonym 'w rate_get = "u32 \<Rightarrow> 'w \<Rightarrow> u32 option"

definition NewHandler :: "Users \<Rightarrow> 'w \<Rightarrow> duration \<Rightarrow> 'w Handler" where
  "NewHandler users w remarkAfter =
     \<lparr>h_users = users, h_world = w, h_recent = newRecentMarks remarkAfter, h_queued = {}, h_provisionQueue = []\<rparr>"

definition queueProvision :: "'w rate_get \<Rightarrow> u32 \<Rightarrow> 'w Handler \<Rightarrow> 'w Handler" where
  "queueProvision rateGet mark h =
     (if rateGet mark (h_world h) \<noteq> None then h
      else if mark \<in> h_queued h then h
      else let h1 = h\<lparr>h_queued := insert mark (h_queued h)\<rparr>
           in if length (h_provisionQueue h1) < provisionQueueSize
              then h1\<lparr>h_provisionQueue := h_provisionQueue h1 @ [mark]\<rparr>
              else h1\<lparr>h_queued := h_queued h1 - {mark}\<rparr>)"

datatype outcome =
    BadPayload
  | Ignored
  | MarkedBefore markedConn
  | MarkFailed markedConn go_error
  | Marked markedConn

text \<open>The times read by \<open>Users.Mark\<close>, \<open>contains\<close> and \<open>add\<close>.\<close>

record clock =
  ck_mark :: time
  ck_contains :: time
  ck_add :: time

text \<open>From the decoded email and addresses on.\<close>

definition mark_connection :: "'w marker \<Rightarrow> 'w rate_get option \<Rightarrow> clock \<Rightarrow> AddrPort \<Rightarrow> AddrPort \<Rightarrow> u32 \<Rightarrow>
    'w Handler \<Rightarrow> outcome \<times> 'w Handler" where
  "mark_connection marker rate ck src dst mark h =
     (if mark = 0 then (Ignored, h)
      else let h1 = (case rate of None \<Rightarrow> h | Some rateGet \<Rightarrow> queueProvision rateGet mark h);
               conn = \<lparr>mc_src = src, mc_dst = dst, mc_mark = mark\<rparr>
           in if recent_contains (ck_contains ck) conn (h_recent h1) then (MarkedBefore conn, h1)
              else (case marker ''tcp'' (AsSlice (ap_Addr src)) (ap_Port src)
                            (AsSlice (ap_Addr dst)) (ap_Port dst) mark (h_world h1) of
                      (Some e, w) \<Rightarrow> (MarkFailed conn e, h1\<lparr>h_world := w\<rparr>)
                    | (None, w) \<Rightarrow>
                        (Marked conn, h1\<lparr>h_world := w, h_recent := recent_add (ck_add ck) conn (h_recent h1)\<rparr>)))"

text \<open>The connection an event describes, if it is one to mark: the addresses and the email.\<close>

definition event_conn :: "event \<Rightarrow> (AddrPort \<times> AddrPort \<times> string) option" where
  "event_conn ev =
     (if (case ev_Network ev of None \<Rightarrow> False | Some n \<Rightarrow> n \<noteq> [] \<and> n \<noteq> ''tcp'') then None
      else case (ev_Email ev, ev_Source ev, ev_InboundLocal ev) of
             (Some email, Some source, Some inboundLocal) \<Rightarrow>
               (case parseAddrPort source of
                  None \<Rightarrow> None
                | Some src \<Rightarrow>
                    (case parseAddrPort inboundLocal of
                       None \<Rightarrow> None
                     | Some dst \<Rightarrow> Some (src, dst, email)))
           | _ \<Rightarrow> None)"

text \<open>The handler; \<open>None\<close> is a panic of \<open>mark.For\<close>.\<close>

definition ServeHTTP :: "'w marker \<Rightarrow> 'w rate_get option \<Rightarrow> clock \<Rightarrow> string \<Rightarrow> 'w Handler \<Rightarrow>
    (outcome \<times> 'w Handler) option" where
  "ServeHTTP marker rate ck body h =
     (case decode_into dec_event zero_event body of
        None \<Rightarrow> Some (BadPayload, h)
      | Some ev \<Rightarrow>
          (case event_conn ev of
             None \<Rightarrow> Some (Ignored, h)
           | Some (src, dst, email) \<Rightarrow>
               (case Users_Mark (ck_mark ck) email (h_users h) of
                  None \<Rightarrow> None
                | Some (mark, users) \<Rightarrow>
                    Some (mark_connection marker rate ck src dst mark (h\<lparr>h_users := users\<rparr>)))))"

definition respond :: "string \<Rightarrow> outcome \<Rightarrow> response" where
  "respond json_err out = (case out of
     BadPayload \<Rightarrow> http_Error (''invalid webhook payload: '' @ json_err) 400
   | MarkFailed conn e \<Rightarrow> http_Error ''failed to set conntrack mark'' 500
   | _ \<Rightarrow> http_status 204)"

section \<open>Runs\<close>

text \<open>Requests one after the other; in between, other goroutines may change everything but the
  table of recent marks, and the users by pruning. The log has the connections marked and the
  times they were added, newest first; it is not part of the program.\<close>

inductive webhook_run :: "'w marker \<Rightarrow> 'w rate_get option \<Rightarrow> int \<Rightarrow> duration \<Rightarrow>
    (time \<times> markedConn) list \<Rightarrow> 'w Handler \<Rightarrow> bool"
  for marker :: "'w marker" and rate :: "'w rate_get option" and queues :: int and ttl :: duration where
  wr_start: "webhook_run marker rate queues ttl [] (NewHandler (NewUsers queues) w ttl)"
| wr_request: "webhook_run marker rate queues ttl log h \<Longrightarrow>
    ServeHTTP marker rate ck body h = Some (out, h') \<Longrightarrow>
    webhook_run marker rate queues ttl
      (case out of Marked conn \<Rightarrow> (ck_add ck, conn) # log | _ \<Rightarrow> log) h'"
| wr_prune: "webhook_run marker rate queues ttl log h \<Longrightarrow>
    webhook_run marker rate queues ttl log (h\<lparr>h_users := Users_Prune now idle (h_users h)\<rparr>)"
| wr_other: "webhook_run marker rate queues ttl log h \<Longrightarrow>
    webhook_run marker rate queues ttl log (h\<lparr>h_world := w, h_queued := qd, h_provisionQueue := q\<rparr>)"

lemma queueProvision_keeps [simp]:
  "h_users (queueProvision rateGet m h) = h_users h"
  "h_recent (queueProvision rateGet m h) = h_recent h"
  "h_world (queueProvision rateGet m h) = h_world h"
  by (simp_all add: queueProvision_def Let_def)

text \<open>What a request does to the users and to the recent marks.\<close>

lemma mark_connection_parts:
  assumes "mark_connection marker rate ck src dst mark h = (out, h')"
  shows "h_users h' = h_users h"
    "h_recent h' = (case out of Marked c \<Rightarrow> recent_add (ck_add ck) c (h_recent h) | _ \<Rightarrow> h_recent h)"
    "mark \<noteq> 0 \<Longrightarrow>
      (if recent_contains (ck_contains ck) \<lparr>mc_src = src, mc_dst = dst, mc_mark = mark\<rparr> (h_recent h)
       then out = MarkedBefore \<lparr>mc_src = src, mc_dst = dst, mc_mark = mark\<rparr>
       else case fst (marker ''tcp'' (AsSlice (ap_Addr src)) (ap_Port src) (AsSlice (ap_Addr dst)) (ap_Port dst)
                   mark (h_world h)) of
              None \<Rightarrow> out = Marked \<lparr>mc_src = src, mc_dst = dst, mc_mark = mark\<rparr>
            | Some e \<Rightarrow> out = MarkFailed \<lparr>mc_src = src, mc_dst = dst, mc_mark = mark\<rparr> e)"
  using assms
  by (auto simp: mark_connection_def Let_def split: if_splits prod.splits option.splits)

text \<open>The \<open>Marker\<close> interface: marking a connection leaves \<open>rest\<close>, the world without the marker's own
  state, as it is. Then a request changes that only through the queue.\<close>

locale connection_marker =
  fixes marker :: "'w marker" and rest :: "'w \<Rightarrow> 'v"
  assumes SetMark_keeps: "rest (snd (marker proto srcIP srcPort dstIP dstPort mark w)) = rest w"
begin

lemma mark_connection_effect:
  assumes "mark_connection marker rate ck src dst m h = (out, h')" "m \<noteq> 0"
  shows "\<exists>w rc. h' = (case rate of None \<Rightarrow> h | Some g \<Rightarrow> queueProvision g m h)\<lparr>h_world := w, h_recent := rc\<rparr> \<and>
    rest w = rest (h_world h)"
proof -
  let ?h = "case rate of None \<Rightarrow> h | Some g \<Rightarrow> queueProvision g m h"
  have w: "h_world ?h = h_world h" by (simp split: option.splits)
  have refl: "?h = ?h\<lparr>h_world := h_world ?h, h_recent := h_recent ?h\<rparr>" by simp
  show ?thesis
  proof (cases "recent_contains (ck_contains ck) \<lparr>mc_src = src, mc_dst = dst, mc_mark = m\<rparr> (h_recent ?h)")
    case True
    with assms have "h' = ?h" by (simp add: mark_connection_def Let_def)
    with refl w show ?thesis by metis
  next
    case False
    obtain e w' where m: "marker ''tcp'' (AsSlice (ap_Addr src)) (ap_Port src)
        (AsSlice (ap_Addr dst)) (ap_Port dst) m (h_world ?h) = (e, w')" by (metis surj_pair)
    have "rest w' = rest (h_world h)" using SetMark_keeps m w by (metis snd_conv)
    moreover have "h' = ?h\<lparr>h_world := w', h_recent := (if e = None then recent_add (ck_add ck)
        \<lparr>mc_src = src, mc_dst = dst, mc_mark = m\<rparr> (h_recent ?h) else h_recent ?h)\<rparr>"
      using assms False m by (cases e) (auto simp: mark_connection_def Let_def)
    ultimately show ?thesis by blast
  qed
qed

end

lemma ServeHTTP_cases:
  assumes "ServeHTTP marker rate ck body h = Some (out, h')"
  obtains (bad) "decode_into dec_event zero_event body = None" "out = BadPayload" "h' = h"
  | (ignored) ev where "decode_into dec_event zero_event body = Some ev" "event_conn ev = None" "out = Ignored" "h' = h"
  | (event) ev src dst email mark users where "decode_into dec_event zero_event body = Some ev"
      "event_conn ev = Some (src, dst, email)" "Users_Mark (ck_mark ck) email (h_users h) = Some (mark, users)"
      "mark_connection marker rate ck src dst mark (h\<lparr>h_users := users\<rparr>) = (out, h')"
  using assms by (auto simp: ServeHTTP_def split: option.splits prod.splits)

lemma webhook_run_inv:
  "webhook_run marker rate queues ttl log h \<Longrightarrow>
     users_ok (h_users h) \<and> us_queues (h_users h) = queues \<and> h_recent h = recent_run log ttl"
proof (induction rule: webhook_run.induct)
  case (wr_start w)
  then show ?case using NewUsers_ok by (simp add: NewHandler_def NewUsers_def)
next
  case (wr_request log h ck body out h')
  from wr_request(2) show ?case
  proof (cases rule: ServeHTTP_cases)
    case (event ev src dst email mark users)
    have "users_ok users \<and> us_queues users = queues"
      using Users_Mark_ok [OF _ event(3)] wr_request(3) by simp
    with mark_connection_parts(1,2) [OF event(4)] wr_request(3) show ?thesis
      by (auto split: outcome.splits)
  qed (use wr_request(3) in simp_all)
qed (auto dest: Users_Prune_ok)

section \<open>Properties\<close>

text \<open>
  C24. Addresses parsed from a webhook are canonical: never an IPv4 address in its IPv6-mapped form,
  always of four or sixteen bytes; and the two ways of writing one IPv4 address, plain and mapped,
  parse to the same address, so that one connection always has one key.
\<close>

theorem parseAddrPort_canonical:
  "(parseAddrPort s = Some ap \<longrightarrow>
      \<not> Is4In6 (ap_Addr ap) \<and> length (AsSlice (ap_Addr ap)) \<in> {4, 16}) \<and>
   (p < 65536 \<longrightarrow>
      parseAddrPort (fmt_ipv4 [a, b, c, d] @ '':'' @ fmt_d p) =
        Some \<lparr>ap_Addr = Addr4 [a, b, c, d], ap_Port = of_nat p\<rparr> \<and>
      parseAddrPort (''[::ffff:'' @ fmt_ipv4 [a, b, c, d] @ '']:'' @ fmt_d p) =
        Some \<lparr>ap_Addr = Addr4 [a, b, c, d], ap_Port = of_nat p\<rparr>)"
proof (intro conjI impI)
  assume "parseAddrPort s = Some ap"
  then obtain ap0 where ap0: "ParseAddrPort s = Some ap0" "ap_Addr ap = Unmap (ap_Addr ap0)"
    by (auto simp: parseAddrPort_def split: option.splits)
  then show "\<not> Is4In6 (ap_Addr ap)" by (simp add: Unmap_not_mapped)
  obtain ip where "ParseAddr ip = Some (ap_Addr ap0)"
    using ap0(1) by (auto simp: ParseAddrPort_def split: option.splits if_splits)
  from ParseAddr_length [OF this] ap0(2) show "length (AsSlice (ap_Addr ap)) \<in> {4, 16}"
    by (cases "ap_Addr ap0") auto
next
  assume "p < 65536"
  then show "parseAddrPort (fmt_ipv4 [a, b, c, d] @ '':'' @ fmt_d p) =
        Some \<lparr>ap_Addr = Addr4 [a, b, c, d], ap_Port = of_nat p\<rparr>"
    "parseAddrPort (''[::ffff:'' @ fmt_ipv4 [a, b, c, d] @ '']:'' @ fmt_d p) =
        Some \<lparr>ap_Addr = Addr4 [a, b, c, d], ap_Port = of_nat p\<rparr>"
    unfolding parseAddrPort_def by (simp_all only: ParseAddrPort_ipv4 ParseAddrPort_mapped) (simp_all add: v4mapped_def)
qed

theorem parseAddrPort_canonical_witness:
  "parseAddrPort ''203.0.113.9:443'' = Some \<lparr>ap_Addr = Addr4 [203, 0, 113, 9], ap_Port = 443\<rparr> \<and>
   parseAddrPort ''[::ffff:203.0.113.9]:443'' = Some \<lparr>ap_Addr = Addr4 [203, 0, 113, 9], ap_Port = 443\<rparr>"
  using parseAddrPort_canonical [of "[]" undefined 443 203 0 113 9]
  by (simp add: fmt_ipv4_def fmt_eval)


abbreviation example_body :: string where
  "example_body \<equiv> ''{'' @ jq ''email'' @ '':'' @ jq ''alice@example.com'' @ '','' @ jq ''source'' @ '':'' @ jq ''198.51.100.7:51000'' @
     '','' @ jq ''inboundLocal'' @ '':'' @ jq ''[::ffff:203.0.113.9]:443'' @ ''}''"

abbreviation example_src :: AddrPort where
  "example_src \<equiv> \<lparr>ap_Addr = Addr4 [198, 51, 100, 7], ap_Port = 51000\<rparr>"

abbreviation example_dst :: AddrPort where
  "example_dst \<equiv> \<lparr>ap_Addr = Addr4 [203, 0, 113, 9], ap_Port = 443\<rparr>"

lemma example_decodes: "decode_into dec_event zero_event example_body =
    Some \<lparr>ev_Email = Some ''alice@example.com'', ev_Network = None, ev_Source = Some ''198.51.100.7:51000'',
      ev_InboundLocal = Some ''[::ffff:203.0.113.9]:443''\<rparr>"
  by code_simp

lemma example_addrs:
  "parseAddrPort ''198.51.100.7:51000'' = Some example_src"
  "parseAddrPort ''[::ffff:203.0.113.9]:443'' = Some example_dst"
proof -
  show "parseAddrPort ''198.51.100.7:51000'' = Some example_src"
    using ParseAddrPort_ipv4 [of 51000 198 51 100 7] by (simp add: parseAddrPort_def fmt_ipv4_def fmt_eval)
  show "parseAddrPort ''[::ffff:203.0.113.9]:443'' = Some example_dst"
    using ParseAddrPort_mapped [of 443 203 0 113 9] by (simp add: parseAddrPort_def fmt_ipv4_def fmt_eval v4mapped_def)
qed

lemma example_event: "event_conn \<lparr>ev_Email = Some ''alice@example.com'', ev_Network = None,
    ev_Source = Some ''198.51.100.7:51000'', ev_InboundLocal = Some ''[::ffff:203.0.113.9]:443''\<rparr> =
    Some (example_src, example_dst, ''alice@example.com'')"
  by (simp add: event_conn_def example_addrs)


text \<open>
  C38. Everything else leaves the handler as it was: a body that is not a JSON event is answered 400,
  and an event of another network, with a field missing, with an address that does not parse, or
  with an empty email is answered 204; none of them marks a connection, touches the recent marks,
  or queues anything.
\<close>

theorem webhook_ignores:
  "(decode_into dec_event zero_event body = None \<longrightarrow>
      ServeHTTP marker rate ck body h = Some (BadPayload, h) \<and> rs_status (respond json_err BadPayload) = 400) \<and>
   (decode_into dec_event zero_event body = Some ev \<longrightarrow>
      (\<exists>n. ev_Network ev = Some n \<and> n \<noteq> [] \<and> n \<noteq> ''tcp'') \<or>
      ev_Email ev = None \<or> ev_Source ev = None \<or> ev_InboundLocal ev = None \<or>
      Option.bind (ev_Source ev) parseAddrPort = None \<or>
      Option.bind (ev_InboundLocal ev) parseAddrPort = None \<or> ev_Email ev = Some [] \<longrightarrow>
      ServeHTTP marker rate ck body h = Some (Ignored, h) \<and> rs_status (respond json_err Ignored) = 204)"
  by (auto simp: ServeHTTP_def respond_def http_Error_def http_status_def event_conn_def Users_Mark_def
      mark_connection_def split: option.splits)

theorem webhook_ignores_witness:
  "ServeHTTP (\<lambda>_ _ _ _ _ _ w. (None, w)) None \<lparr>ck_mark = 1, ck_contains = 2, ck_add = 3\<rparr>
      (''{'' @ jq ''email'' @ '':'' @ jq ''alice@example.com'' @ '','' @ jq ''network'' @ '':'' @ jq ''udp'' @ ''}'')
      (NewHandler (NewUsers 48) () 0) = Some (Ignored, NewHandler (NewUsers 48) () 0)"
proof -
  have d: "decode_into dec_event zero_event
      (''{'' @ jq ''email'' @ '':'' @ jq ''alice@example.com'' @ '','' @ jq ''network'' @ '':'' @ jq ''udp'' @ ''}'') =
      Some \<lparr>ev_Email = Some ''alice@example.com'', ev_Network = Some ''udp'', ev_Source = None, ev_InboundLocal = None\<rparr>"
    by code_simp
  show ?thesis
    by (rule conjunct1 [OF conjunct2 [OF webhook_ignores, THEN mp, THEN mp, OF d]]) simp
qed

end
