(* ===== verification/Provision.thy ===== *)
theory Provision
  imports Webhook Store_Conc
begin

text \<open>
  The provisioning queue of \<open>internal/webhook/webhook.go\<close> under concurrency: any number of webhook
  requests in \<open>queueProvision\<close>, and the goroutine of \<open>provisionLoop\<close>, taken apart at the points
  where others can run. Other users of the store (the HTTP API, the idle collector) may change the
  world between any two steps. Shown are the bound of the queue, that a mark waits at most once,
  that no mark is ever lost as \<open>queued\<close> without being on its way, and that without other writers
  every accepted mark gets its rate.
\<close>

section \<open>Goroutines\<close>

text \<open>A request, by the next operation of \<open>queueProvision\<close> it does: \<open>rate.Get\<close>,
  \<open>queued.LoadOrStore\<close>, the \<open>select\<close>, the \<open>queued.Delete\<close> of its default branch.\<close>

datatype request_phase = Idle | AtGet u32 | AtStore u32 | AtSend u32 | AtDrop u32

text \<open>The provisioning goroutine: receiving, calling \<open>rate.Set\<close>, at \<open>queued.Delete\<close>.\<close>

datatype worker_phase = Receiving | Setting u32 | Clearing u32

record 'w prov =
  pv_world :: 'w
  pv_queued :: "u32 set"
  pv_queue :: "u32 list"
  pv_request :: "nat \<Rightarrow> request_phase"
  pv_worker :: worker_phase

text \<open>\<open>others\<close> are the changes the rest of the program may make to the world.\<close>

inductive prov_step :: "'w rate_get \<Rightarrow> (u32 \<Rightarrow> u32 \<Rightarrow> 'w action) \<Rightarrow> u32 \<Rightarrow> ('w \<Rightarrow> 'w \<Rightarrow> bool) \<Rightarrow>
    'w prov \<Rightarrow> 'w prov \<Rightarrow> bool"
  for rateGet :: "'w rate_get" and rateSet :: "u32 \<Rightarrow> u32 \<Rightarrow> 'w action" and perUser :: u32
    and others :: "'w \<Rightarrow> 'w \<Rightarrow> bool" where
  ps_webhook: "pv_request p t = Idle \<Longrightarrow>
    prov_step rateGet rateSet perUser others p (p\<lparr>pv_request := (pv_request p)(t := AtGet m)\<rparr>)"
| ps_has_rate: "pv_request p t = AtGet m \<Longrightarrow> rateGet m (pv_world p) \<noteq> None \<Longrightarrow>
    prov_step rateGet rateSet perUser others p (p\<lparr>pv_request := (pv_request p)(t := Idle)\<rparr>)"
| ps_no_rate: "pv_request p t = AtGet m \<Longrightarrow> rateGet m (pv_world p) = None \<Longrightarrow>
    prov_step rateGet rateSet perUser others p (p\<lparr>pv_request := (pv_request p)(t := AtStore m)\<rparr>)"
| ps_loaded: "pv_request p t = AtStore m \<Longrightarrow> m \<in> pv_queued p \<Longrightarrow>
    prov_step rateGet rateSet perUser others p (p\<lparr>pv_request := (pv_request p)(t := Idle)\<rparr>)"
| ps_stored: "pv_request p t = AtStore m \<Longrightarrow> m \<notin> pv_queued p \<Longrightarrow>
    prov_step rateGet rateSet perUser others p
      (p\<lparr>pv_request := (pv_request p)(t := AtSend m), pv_queued := insert m (pv_queued p)\<rparr>)"
| ps_sent: "pv_request p t = AtSend m \<Longrightarrow> length (pv_queue p) < provisionQueueSize \<Longrightarrow>
    prov_step rateGet rateSet perUser others p
      (p\<lparr>pv_request := (pv_request p)(t := Idle), pv_queue := pv_queue p @ [m]\<rparr>)"
| ps_full: "pv_request p t = AtSend m \<Longrightarrow> \<not> length (pv_queue p) < provisionQueueSize \<Longrightarrow>
    prov_step rateGet rateSet perUser others p (p\<lparr>pv_request := (pv_request p)(t := AtDrop m)\<rparr>)"
| ps_dropped: "pv_request p t = AtDrop m \<Longrightarrow>
    prov_step rateGet rateSet perUser others p
      (p\<lparr>pv_request := (pv_request p)(t := Idle), pv_queued := pv_queued p - {m}\<rparr>)"
| ps_receive: "pv_worker p = Receiving \<Longrightarrow> pv_queue p = m # q \<Longrightarrow>
    prov_step rateGet rateSet perUser others p (p\<lparr>pv_worker := Setting m, pv_queue := q\<rparr>)"
| ps_set: "pv_worker p = Setting m \<Longrightarrow> rateSet m perUser (pv_world p) = (e, w) \<Longrightarrow>
    prov_step rateGet rateSet perUser others p (p\<lparr>pv_worker := Clearing m, pv_world := w\<rparr>)"
| ps_clear: "pv_worker p = Clearing m \<Longrightarrow>
    prov_step rateGet rateSet perUser others p (p\<lparr>pv_worker := Receiving, pv_queued := pv_queued p - {m}\<rparr>)"
| ps_other: "others (pv_world p) w \<Longrightarrow> prov_step rateGet rateSet perUser others p (p\<lparr>pv_world := w\<rparr>)"

definition prov_init :: "'w \<Rightarrow> 'w prov" where
  "prov_init w = \<lparr>pv_world = w, pv_queued = {}, pv_queue = [], pv_request = (\<lambda>_. Idle), pv_worker = Receiving\<rparr>"

section \<open>Who has a mark\<close>

text \<open>A queued mark is in one place only: with the request that is sending or dropping it, in
  the queue, or with the goroutine.\<close>

fun request_has :: "request_phase \<Rightarrow> u32 \<Rightarrow> bool" where
  "request_has (AtSend m) x = (x = m)"
| "request_has (AtDrop m) x = (x = m)"
| "request_has _ x = False"

fun worker_has :: "worker_phase \<Rightarrow> u32 \<Rightarrow> bool" where
  "worker_has (Setting m) x = (x = m)"
| "worker_has (Clearing m) x = (x = m)"
| "worker_has Receiving x = False"

datatype place = InQueue | WithWorker | WithRequest nat

fun has_mark :: "'w prov \<Rightarrow> u32 \<Rightarrow> place \<Rightarrow> bool" where
  "has_mark p m InQueue = (m \<in> set (pv_queue p))"
| "has_mark p m WithWorker = worker_has (pv_worker p) m"
| "has_mark p m (WithRequest t) = request_has (pv_request p t) m"

definition one_place :: "'w prov \<Rightarrow> u32 \<Rightarrow> bool" where
  "one_place p m \<longleftrightarrow>
     (if m \<in> pv_queued p then \<exists>at. \<forall>pl. has_mark p m pl \<longleftrightarrow> pl = at else \<forall>pl. \<not> has_mark p m pl)"

definition prov_inv :: "'w prov \<Rightarrow> bool" where
  "prov_inv p \<longleftrightarrow>
     length (pv_queue p) \<le> provisionQueueSize \<and> distinct (pv_queue p) \<and> (\<forall>m. one_place p m)"

lemma prov_init_inv: "prov_inv (prov_init w)"
proof -
  have "\<not> has_mark (prov_init w) m pl" for m pl
    by (cases pl) (simp_all add: prov_init_def)
  then show ?thesis by (simp add: prov_inv_def prov_init_def one_place_def)
qed

text \<open>A mark that has the same places as before.\<close>

lemma one_place_same:
  "one_place p m \<Longrightarrow> (m \<in> pv_queued p' \<longleftrightarrow> m \<in> pv_queued p) \<Longrightarrow> (\<And>pl. has_mark p' m pl = has_mark p m pl) \<Longrightarrow>
     one_place p' m"
  by (simp add: one_place_def)

lemma one_place_at:
  "m \<in> pv_queued p \<Longrightarrow> (\<And>pl. has_mark p m pl \<longleftrightarrow> pl = at) \<Longrightarrow> one_place p m"
  by (auto simp: one_place_def)

lemma one_placeD:
  assumes "one_place p m" "has_mark p m at"
  shows "m \<in> pv_queued p" "has_mark p m pl \<longleftrightarrow> pl = at"
  using assms by (auto simp: one_place_def split: if_splits)

lemma one_place_none: "one_place p m \<Longrightarrow> m \<notin> pv_queued p \<Longrightarrow> \<not> has_mark p m pl"
  by (simp add: one_place_def)

text \<open>A request that has the same mark after its step, or none as before, changes nothing.\<close>

lemma prov_inv_request:
  assumes "prov_inv p" "request_has ph = request_has (pv_request p t)"
  shows "prov_inv (p\<lparr>pv_request := (pv_request p)(t := ph)\<rparr>)"
proof -
  have "has_mark (p\<lparr>pv_request := (pv_request p)(t := ph)\<rparr>) m pl = has_mark p m pl" for m pl
    using assms(2) by (cases pl) auto
  with assms(1) show ?thesis by (auto simp: prov_inv_def intro: one_place_same)
qed

text \<open>The step of one mark \<open>x\<close> from one place to another, or in or out.\<close>

lemma prov_inv_step:
  assumes "prov_inv p" "length (pv_queue p') \<le> provisionQueueSize" "distinct (pv_queue p')"
    and "\<And>m. m \<noteq> x \<Longrightarrow> (m \<in> pv_queued p' \<longleftrightarrow> m \<in> pv_queued p)"
    and "\<And>m pl. m \<noteq> x \<Longrightarrow> has_mark p' m pl = has_mark p m pl"
    and "one_place p' x"
  shows "prov_inv p'"
  unfolding prov_inv_def
proof (intro conjI allI)
  fix m
  have "one_place p m" using assms(1) by (simp add: prov_inv_def)
  with assms(4,5,6) show "one_place p' m" by (cases "m = x") (auto intro: one_place_same)
qed (rule assms)+

lemma prov_inv_at: "prov_inv p \<Longrightarrow> one_place p m"
  by (simp add: prov_inv_def)

lemma prov_inv_queue: "prov_inv p \<Longrightarrow> length (pv_queue p) \<le> provisionQueueSize" "prov_inv p \<Longrightarrow> distinct (pv_queue p)"
  by (simp_all add: prov_inv_def)

lemma prov_step_inv:
  "prov_step rateGet rateSet perUser others p p' \<Longrightarrow> prov_inv p \<Longrightarrow> prov_inv p'"
proof (induction rule: prov_step.induct)
  case (ps_stored p t m)
  let ?p = "p\<lparr>pv_request := (pv_request p)(t := AtSend m), pv_queued := insert m (pv_queued p)\<rparr>"
  note none = one_place_none [OF prov_inv_at [OF ps_stored(3)] ps_stored(2)]
  have "has_mark ?p m pl \<longleftrightarrow> pl = WithRequest t" for pl
    using none [of pl] by (cases pl) auto
  moreover have "has_mark ?p x pl = has_mark p x pl" if "x \<noteq> m" for x pl
    using that ps_stored(1) by (cases pl) auto
  ultimately show ?case using prov_inv_queue [OF ps_stored(3)]
    by (intro prov_inv_step [OF ps_stored(3), of _ m] one_place_at [of _ _ "WithRequest t"]) simp_all
next
  case (ps_sent p t m)
  let ?p = "p\<lparr>pv_request := (pv_request p)(t := Idle), pv_queue := pv_queue p @ [m]\<rparr>"
  have h: "has_mark p m (WithRequest t)" using ps_sent(1) by simp
  note at = one_placeD [OF prov_inv_at [OF ps_sent(3)] h]
  have "has_mark ?p m pl \<longleftrightarrow> pl = InQueue" for pl
    using at(2) [of pl] by (cases pl) auto
  moreover have "has_mark ?p x pl = has_mark p x pl" if "x \<noteq> m" for x pl
    using that ps_sent(1) by (cases pl) auto
  moreover have "m \<notin> set (pv_queue p)" using at(2) [of InQueue] by simp
  ultimately show ?case using prov_inv_queue [OF ps_sent(3)] ps_sent(2) at(1)
    by (intro prov_inv_step [OF ps_sent(3), of _ m] one_place_at [of _ _ InQueue]) simp_all
next
  case (ps_dropped p t m)
  let ?p = "p\<lparr>pv_request := (pv_request p)(t := Idle), pv_queued := pv_queued p - {m}\<rparr>"
  have h: "has_mark p m (WithRequest t)" using ps_dropped(1) by simp
  note at = one_placeD [OF prov_inv_at [OF ps_dropped(2)] h]
  have "\<not> has_mark ?p m pl" for pl using at(2) [of pl] by (cases pl) auto
  moreover have "has_mark ?p x pl = has_mark p x pl" if "x \<noteq> m" for x pl
    using that ps_dropped(1) by (cases pl) auto
  ultimately show ?case using prov_inv_queue [OF ps_dropped(2)]
    by (intro prov_inv_step [OF ps_dropped(2), of _ m]) (simp_all add: one_place_def)
next
  case (ps_receive p m q)
  let ?p = "p\<lparr>pv_worker := Setting m, pv_queue := q\<rparr>"
  have h: "has_mark p m InQueue" using ps_receive(2) by simp
  note at = one_placeD [OF prov_inv_at [OF ps_receive(3)] h]
  note qu = prov_inv_queue [OF ps_receive(3)]
  have "has_mark ?p m pl \<longleftrightarrow> pl = WithWorker" for pl
    using at(2) [of pl] qu(2) ps_receive(2) by (cases pl) auto
  moreover have "has_mark ?p x pl = has_mark p x pl" if "x \<noteq> m" for x pl
    using that ps_receive(1,2) by (cases pl) auto
  ultimately show ?case using qu ps_receive(2) at(1)
    by (intro prov_inv_step [OF ps_receive(3), of _ m] one_place_at [of _ _ WithWorker]) simp_all
next
  case (ps_set p m e w)
  have "has_mark (p\<lparr>pv_worker := Clearing m, pv_world := w\<rparr>) x pl = has_mark p x pl" for x pl
    using ps_set(1) by (cases pl) auto
  with ps_set(3) show ?case by (auto simp: prov_inv_def intro: one_place_same)
next
  case (ps_clear p m)
  let ?p = "p\<lparr>pv_worker := Receiving, pv_queued := pv_queued p - {m}\<rparr>"
  have h: "has_mark p m WithWorker" using ps_clear(1) by simp
  note at = one_placeD [OF prov_inv_at [OF ps_clear(2)] h]
  have "\<not> has_mark ?p m pl" for pl using at(2) [of pl] by (cases pl) auto
  moreover have "has_mark ?p x pl = has_mark p x pl" if "x \<noteq> m" for x pl
    using that ps_clear(1) by (cases pl) auto
  ultimately show ?case using prov_inv_queue [OF ps_clear(2)]
    by (intro prov_inv_step [OF ps_clear(2), of _ m]) (simp_all add: one_place_def)
next
  case (ps_other p w)
  have "has_mark (p\<lparr>pv_world := w\<rparr>) x pl = has_mark p x pl" for x pl
    by (cases pl) auto
  with ps_other(2) show ?case by (auto simp: prov_inv_def intro: one_place_same)
qed (simp_all add: prov_inv_request fun_eq_iff)

abbreviation prov_reachable where
  "prov_reachable rateGet rateSet perUser others w \<equiv>
     (prov_step rateGet rateSet perUser others)\<^sup>*\<^sup>* (prov_init w)"

lemma prov_steps_inv:
  "(prov_step rateGet rateSet perUser others)\<^sup>*\<^sup>* p p' \<Longrightarrow> prov_inv p \<Longrightarrow> prov_inv p'"
  by (induction rule: rtranclp_induct) (auto intro: prov_step_inv)

section \<open>The goroutine empties the queue\<close>

text \<open>What the world becomes when the marks of a list get their rate one after the other.\<close>

fun set_all :: "(u32 \<Rightarrow> u32 \<Rightarrow> 'w action) \<Rightarrow> u32 \<Rightarrow> u32 list \<Rightarrow> 'w \<Rightarrow> 'w" where
  "set_all rateSet perUser [] w = w"
| "set_all rateSet perUser (m # ms) w = set_all rateSet perUser ms (snd (rateSet m perUser w))"

lemma three_steps: "R a b \<Longrightarrow> R b c \<Longrightarrow> R c d \<Longrightarrow> R\<^sup>*\<^sup>* a d"
  by (rule converse_rtranclp_into_rtranclp, assumption, rule converse_rtranclp_into_rtranclp, assumption) blast

lemma prov_serve_one:
  assumes "pv_worker p = Receiving" "pv_queue p = m # q"
  shows "(prov_step rateGet rateSet perUser others)\<^sup>*\<^sup>* p
    (p\<lparr>pv_queue := q, pv_queued := pv_queued p - {m}, pv_world := snd (rateSet m perUser (pv_world p))\<rparr>)"
proof -
  obtain e w where w: "rateSet m perUser (pv_world p) = (e, w)" by fastforce
  let ?p1 = "p\<lparr>pv_worker := Setting m, pv_queue := q\<rparr>"
  let ?p2 = "?p1\<lparr>pv_worker := Clearing m, pv_world := w\<rparr>"
  let ?p3 = "?p2\<lparr>pv_worker := Receiving, pv_queued := pv_queued ?p2 - {m}\<rparr>"
  have 1: "prov_step rateGet rateSet perUser others p ?p1" by (rule ps_receive [OF assms])
  have 2: "prov_step rateGet rateSet perUser others ?p1 ?p2" by (rule ps_set) (simp_all add: w)
  have 3: "prov_step rateGet rateSet perUser others ?p2 ?p3" by (rule ps_clear) simp
  have "(prov_step rateGet rateSet perUser others)\<^sup>*\<^sup>* p ?p3"
    by (rule three_steps [where R = "prov_step rateGet rateSet perUser others", OF 1 2 3])
  moreover have "?p3 = p\<lparr>pv_queue := q, pv_queued := pv_queued p - {m}, pv_world := snd (rateSet m perUser (pv_world p))\<rparr>"
    using assms(1) by (simp add: w)
  ultimately show ?thesis by simp
qed

lemma prov_drain:
  "pv_worker p = Receiving \<Longrightarrow>
     (prov_step rateGet rateSet perUser others)\<^sup>*\<^sup>* p
       (p\<lparr>pv_queue := [], pv_queued := pv_queued p - set (pv_queue p),
          pv_world := set_all rateSet perUser (pv_queue p) (pv_world p)\<rparr>)"
proof (induction "pv_queue p" arbitrary: p)
  case Nil
  then have "p\<lparr>pv_queue := [], pv_queued := pv_queued p - set (pv_queue p),
          pv_world := set_all rateSet perUser (pv_queue p) (pv_world p)\<rparr> = p"
    by (cases p) simp
  then show ?case by simp
next
  case (Cons m q)
  let ?p = "p\<lparr>pv_queue := q, pv_queued := pv_queued p - {m}, pv_world := snd (rateSet m perUser (pv_world p))\<rparr>"
  note q = Cons.hyps(2) [symmetric]
  note one = prov_serve_one [OF Cons.prems q, of rateGet rateSet perUser others]
  have "(prov_step rateGet rateSet perUser others)\<^sup>*\<^sup>* ?p
      (?p\<lparr>pv_queue := [], pv_queued := pv_queued ?p - set (pv_queue ?p),
          pv_world := set_all rateSet perUser (pv_queue ?p) (pv_world ?p)\<rparr>)"
    by (rule Cons.hyps(1)) (simp_all add: Cons.prems)
  moreover have "?p\<lparr>pv_queue := [], pv_queued := pv_queued ?p - set (pv_queue ?p),
          pv_world := set_all rateSet perUser (pv_queue ?p) (pv_world ?p)\<rparr> =
      p\<lparr>pv_queue := [], pv_queued := pv_queued p - set (pv_queue p),
          pv_world := set_all rateSet perUser (pv_queue p) (pv_world p)\<rparr>"
  proof -
    have "pv_queued p - {m} - set q = pv_queued p - set (m # q)" by auto
    then show ?thesis by (simp add: q)
  qed
  ultimately have "(prov_step rateGet rateSet perUser others)\<^sup>*\<^sup>* ?p
      (p\<lparr>pv_queue := [], pv_queued := pv_queued p - set (pv_queue p),
          pv_world := set_all rateSet perUser (pv_queue p) (pv_world p)\<rparr>)" by (simp only:)
  with one show ?case by (rule rtranclp_trans)
qed

text \<open>A step of the goroutine is one that moves it; each takes one unit of its work away.\<close>

definition worker_step :: "'w rate_get \<Rightarrow> (u32 \<Rightarrow> u32 \<Rightarrow> 'w action) \<Rightarrow> u32 \<Rightarrow> ('w \<Rightarrow> 'w \<Rightarrow> bool) \<Rightarrow>
    'w prov \<Rightarrow> 'w prov \<Rightarrow> bool" where
  "worker_step rateGet rateSet perUser others p p' \<longleftrightarrow>
     prov_step rateGet rateSet perUser others p p' \<and> pv_worker p' \<noteq> pv_worker p"

fun phase_work :: "worker_phase \<Rightarrow> nat" where
  "phase_work Receiving = 0"
| "phase_work (Setting m) = 2"
| "phase_work (Clearing m) = 1"

definition work :: "'w prov \<Rightarrow> nat" where
  "work p = 3 * length (pv_queue p) + phase_work (pv_worker p)"

lemma prov_step_work:
  "prov_step rateGet rateSet perUser others p p' \<Longrightarrow> pv_worker p' \<noteq> pv_worker p \<Longrightarrow> Suc (work p') = work p"
  by (induction rule: prov_step.induct) (simp_all add: work_def)

lemma worker_steps_work: "(worker_step rateGet rateSet perUser others ^^ n) p p' \<Longrightarrow> n + work p' = work p"
proof (induction n arbitrary: p')
  case (Suc n)
  then obtain p1 where p1: "(worker_step rateGet rateSet perUser others ^^ n) p p1" "worker_step rateGet rateSet perUser others p1 p'"
    by auto
  from p1(2) have "Suc (work p') = work p1" by (auto simp: worker_step_def intro: prov_step_work)
  with Suc.IH [OF p1(1)] show ?case by simp
qed simp

lemma worker_step_exists:
  "(\<exists>p'. worker_step rateGet rateSet perUser others p p') \<longleftrightarrow> pv_queue p \<noteq> [] \<or> pv_worker p \<noteq> Receiving"
proof
  assume "\<exists>p'. worker_step rateGet rateSet perUser others p p'"
  then have "work p \<noteq> 0" using prov_step_work by (fastforce simp: worker_step_def)
  then show "pv_queue p \<noteq> [] \<or> pv_worker p \<noteq> Receiving" by (auto simp: work_def)
next
  assume a: "pv_queue p \<noteq> [] \<or> pv_worker p \<noteq> Receiving"
  show "\<exists>p'. worker_step rateGet rateSet perUser others p p'"
  proof (cases "pv_worker p")
    case Receiving
    with a obtain m q where "pv_queue p = m # q" by (cases "pv_queue p") auto
    with ps_receive [OF Receiving this] Receiving show ?thesis
      by (intro exI [of _ "p\<lparr>pv_worker := Setting m, pv_queue := q\<rparr>"]) (simp add: worker_step_def)
  next
    case (Setting m)
    obtain e w where w: "rateSet m perUser (pv_world p) = (e, w)" by fastforce
    have "prov_step rateGet rateSet perUser others p (p\<lparr>pv_worker := Clearing m, pv_world := w\<rparr>)"
      by (rule ps_set [where e = e]) (simp_all add: Setting w)
    with Setting show ?thesis
      by (intro exI [of _ "p\<lparr>pv_worker := Clearing m, pv_world := w\<rparr>"]) (simp add: worker_step_def)
  next
    case (Clearing m)
    from ps_clear [OF Clearing] Clearing show ?thesis
      by (intro exI [of _ "p\<lparr>pv_worker := Receiving, pv_queued := pv_queued p - {m}\<rparr>"]) (simp add: worker_step_def)
  qed
qed

text \<open>On a store whose \<open>Set\<close> succeeds for these marks, all of them have the rate afterwards.\<close>

context limit_store
begin

lemma set_all_rates:
  "st_inv w \<Longrightarrow> (\<And>m w. m \<in> set ms \<Longrightarrow> good w \<Longrightarrow> \<exists>w'. st_Set m r w = (None, w') \<and> good w') \<Longrightarrow> good w \<Longrightarrow>
     st_inv (set_all st_Set r ms w) \<and>
     (\<forall>m. st_Get m (set_all st_Set r ms w) = (if m \<in> set ms then Some r else st_Get m w))"
proof (induction ms arbitrary: w)
  case (Cons m ms)
  obtain w' where w': "st_Set m r w = (None, w')" "good w'" using Cons.prems(2) [of m w] Cons.prems(3) by auto
  from Cons.IH [OF Set_inv [OF Cons.prems(1) w'(1)] Cons.prems(2) w'(2)] Set_ok [OF Cons.prems(1) w'(1)] w'(1)
  show ?case by auto
qed simp

end

section \<open>Properties\<close>

text \<open>
  C12. Whatever the webhooks, the provisioning goroutine and the rest of the program do, in whatever
  order: at most 16384 marks wait, none twice, and a mark recorded as queued is in exactly one
  place: waiting, with the goroutine, or with the request that has just recorded it. So no mark is
  stuck as queued, which would keep its user from ever being provisioned.
\<close>

theorem provision_queue_sound:
  assumes "prov_reachable rateGet rateSet perUser others w p"
  shows "length (pv_queue p) \<le> 16384 \<and> distinct (pv_queue p) \<and>
    (\<forall>m. m \<in> pv_queued p \<longleftrightarrow> (\<exists>!pl. has_mark p m pl)) \<and>
    (pv_queue p = [] \<and> pv_worker p = Receiving \<and> (\<forall>t. pv_request p t = Idle) \<longrightarrow> pv_queued p = {})"
proof -
  have inv: "prov_inv p" by (rule prov_steps_inv [OF assms prov_init_inv])
  have q: "m \<in> pv_queued p \<longleftrightarrow> (\<exists>!pl. has_mark p m pl)" for m
    using prov_inv_at [OF inv, of m] by (auto simp: one_place_def split: if_splits)
  have "pv_queued p = {}" if "pv_queue p = []" "pv_worker p = Receiving" "\<forall>t. pv_request p t = Idle"
  proof -
    have "\<not> has_mark p m pl" for m pl using that by (cases pl) simp_all
    with q show ?thesis by blast
  qed
  with q prov_inv_queue [OF inv] show ?thesis by (simp add: provisionQueueSize_def)
qed

text \<open>
  C13. Every waiting mark is provisioned: from any state in which the goroutine is back
  at the queue, its own steps alone empty the queue, and if tc succeeds every mark that waited has
  the per-user rate in the store then, and every other mark what it had.
\<close>

theorem provision_drains:
  assumes "pv_worker p = Receiving" "\<forall>m\<in>set (pv_queue p). user_mark (sh_queues s) m"
    and "memoryStore_inv (fst (pv_world p))" "\<forall>t c. cmd_ok (os_reply (snd (pv_world p)) t c)"
  shows "\<exists>p'. (prov_step store_Get (store_Set s) perUser others)\<^sup>*\<^sup>* p p' \<and> pv_queue p' = [] \<and>
    set (pv_queue p) \<inter> pv_queued p' = {} \<and>
    (\<forall>m. store_Get m (pv_world p') = (if m \<in> set (pv_queue p) then Some perUser else store_Get m (pv_world p)))"
proof -
  let ?good = "\<lambda>x :: xstore. \<forall>t c. cmd_ok (os_reply (snd x) t c)"
  have ok: "\<exists>x'. store_Set s m perUser x = (None, x') \<and> ?good x'" if "m \<in> set (pv_queue p)" "?good x" for m x
    using that assms(2) store_shape_answered [of s "OpSet m perUser" "snd x"]
    by (cases x) (auto simp: store_shape_def xstore_defs shapedStore_Set_def memoryStore_Set_def)
  let ?w = "set_all (store_Set s) perUser (pv_queue p) (pv_world p)"
  have "memoryStore_inv (fst ?w) \<and>
      (\<forall>m. store_Get m ?w = (if m \<in> set (pv_queue p) then Some perUser else store_Get m (pv_world p)))"
    by (rule xstore.set_all_rates [where good = ?good]) (use assms(3,4) ok in blast)+
  with prov_drain [OF assms(1), of store_Get "store_Set s" perUser others] show ?thesis
    by (intro exI [of _ "p\<lparr>pv_queue := [], pv_queued := pv_queued p - set (pv_queue p), pv_world := ?w\<rparr>"]) auto
qed

text \<open>A webhook for a user without a rate has queued its mark.\<close>

abbreviation example_world :: xstore where
  "example_world \<equiv> (NewMemoryStore, os_always (ok_result []))"

abbreviation example_queued :: "xstore prov" where
  "example_queued \<equiv> \<lparr>pv_world = example_world, pv_queued = {0x1002a}, pv_queue = [0x1002a],
     pv_request = (\<lambda>_. Idle), pv_worker = Receiving\<rparr>"

lemma example_queued_reachable:
  "prov_reachable store_Get (store_Set eth0_4) 125000 others example_world example_queued"
  unfolding prov_init_def
  apply (rule converse_rtranclp_into_rtranclp, rule ps_webhook [where t = 0 and m = "0x1002a"])
  apply simp
  apply (rule converse_rtranclp_into_rtranclp, rule ps_no_rate [where t = 0 and m = "0x1002a"])
  apply (simp_all add: store_Get_def shapedStore_Get_def)
  apply (rule converse_rtranclp_into_rtranclp, rule ps_stored [where t = 0 and m = "0x1002a"])
  apply simp_all
  apply (rule converse_rtranclp_into_rtranclp, rule ps_sent [where t = 0 and m = "0x1002a"])
  apply (simp_all add: provisionQueueSize_def)
  apply (rule rtranclp_refl_eq)
  apply (simp add: fun_eq_iff)
  done

theorem provision_queue_sound_witness:
  "\<exists>!pl. has_mark example_queued 0x1002a pl"
proof -
  have "0x1002a \<in> pv_queued example_queued \<longleftrightarrow> (\<exists>!pl. has_mark example_queued 0x1002a pl)"
    using provision_queue_sound [OF example_queued_reachable [of "\<lambda>_ _. False"]] by blast
  then show ?thesis by simp
qed

theorem provision_drains_witness:
  "\<exists>p'. (prov_step store_Get (store_Set eth0_4) 125000 (\<lambda>_ _. False))\<^sup>*\<^sup>* example_queued p' \<and>
     store_Get 0x1002a (pv_world p') = Some 125000"
proof -
  have "\<forall>m\<in>set (pv_queue example_queued). user_mark (sh_queues eth0_4) m"
    using user_mark_example by simp
  from provision_drains [OF _ this, where others = "\<lambda>_ _. False" and perUser = 125000] show ?thesis
    by fastforce
qed

text \<open>
  C22. The provisioning goroutine terminates on what is queued: whatever tc answers, it takes at most
  three steps for each mark that waits, and two for the one it has, and it can always take its next
  step until the queue is empty and it is back at receiving.
\<close>

theorem provision_terminates:
  assumes "(worker_step rateGet rateSet perUser others ^^ n) p p'"
  shows "n \<le> 3 * length (pv_queue p) + 2 \<and>
    ((\<exists>p''. worker_step rateGet rateSet perUser others p' p'') \<longleftrightarrow> pv_queue p' \<noteq> [] \<or> pv_worker p' \<noteq> Receiving) \<and>
    (pv_queue p' = [] \<and> pv_worker p' = Receiving \<and> pv_worker p = Receiving \<longrightarrow> n = 3 * length (pv_queue p))"
proof -
  have "n + work p' = work p" by (rule worker_steps_work [OF assms])
  moreover have "phase_work (pv_worker p) \<le> 2" by (cases "pv_worker p") simp_all
  ultimately show ?thesis unfolding worker_step_exists by (auto simp: work_def)
qed

theorem provision_terminates_witness:
  "\<exists>p'. worker_step store_Get (store_Set eth0_4) 125000 (\<lambda>_ _. False) example_queued p' \<and>
     (\<exists>p''. worker_step store_Get (store_Set eth0_4) 125000 (\<lambda>_ _. False) p' p'')"
proof -
  let ?p = "example_queued\<lparr>pv_worker := Setting 0x1002a, pv_queue := []\<rparr>"
  have s: "worker_step store_Get (store_Set eth0_4) 125000 (\<lambda>_ _. False) example_queued ?p"
    unfolding worker_step_def by (rule conjI, rule ps_receive) simp_all
  then have "(worker_step store_Get (store_Set eth0_4) 125000 (\<lambda>_ _. False) ^^ 1) example_queued ?p" by (simp only: relpowp_1)
  from provision_terminates [OF this] s show ?thesis by (intro exI [of _ ?p]) simp
qed


end
