(* ===== verification/Api.thy ===== *)
theory Api
  imports Store_Conc Users Go_Http
begin

text \<open>
  \<open>internal/api/api.go\<close>: the HTTP control plane, over any \<open>limiter.Store\<close> (its operations are
  arguments; the facts are proved in the locale of that interface and then used on the store main
  builds). A handler returns the response and the new state of the store. \<open>sort.Slice\<close> is not
  stable and its algorithm is unspecified, so it is an argument \<open>sorter\<close>, of which only the
  documented behaviour is assumed: the result is a sorted permutation.
\<close>

section \<open>Bodies\<close>

definition json_uint :: "'a::len word \<Rightarrow> json" where
  "json_uint w = JNum (fmt_d (unat w))"

definition json_Entry :: "Entry \<Rightarrow> json" where
  "json_Entry e = JObj [(''mark'', json_uint (en_Mark e)), (''rate_bytes_per_sec'', json_uint (en_RateBytesPerSec e))]"

definition writeJSON :: "nat \<Rightarrow> json \<Rightarrow> response" where
  "writeJSON status v = \<lparr>rs_status = status, rs_body = JsonBody v\<rparr>"

definition writeError :: "nat \<Rightarrow> string \<Rightarrow> response" where
  "writeError status msg = writeJSON status (JObj [(''error'', JStr msg)])"

record userMark =
  um_Email :: string
  um_Mark :: u32
  um_RateBytesPerSec :: u32

text \<open>\<open>omitempty\<close> leaves a zero rate out.\<close>

definition json_userMark :: "userMark \<Rightarrow> json" where
  "json_userMark u = JObj ([(''email'', JStr (um_Email u)), (''mark'', json_uint (um_Mark u))] @
     (if um_RateBytesPerSec u = 0 then [] else [(''rate_bytes_per_sec'', json_uint (um_RateBytesPerSec u))]))"

section \<open>Handlers\<close>

definition parseMark :: "string \<Rightarrow> u32 go_result" where
  "parseMark raw =
     (if raw = [] then Inl ''mark is required''
      else case ParseUint raw 10 32 of
             None \<Rightarrow> Inl ''mark must be an unsigned 32-bit integer''
           | Some v \<Rightarrow> Inr (of_nat v))"

definition dec_setRequest :: "u64 decoder" where
  "dec_setRequest = dec_struct True [(''rate_bytes_per_sec'', dec_field id id dec_uint64)]"

definition handleSet :: "(u32 \<Rightarrow> u32 \<Rightarrow> 's action) \<Rightarrow> string \<Rightarrow> string \<Rightarrow> string \<Rightarrow> 's \<Rightarrow> response \<times> 's" where
  "handleSet st_Set json_err raw body s =
     (case parseMark raw of
        Inl e \<Rightarrow> (writeError 400 e, s)
      | Inr mark \<Rightarrow>
          (case decode_into dec_setRequest 0 body of
             None \<Rightarrow> (writeError 400 (''invalid request body: '' @ json_err), s)
           | Some rate \<Rightarrow>
               if rate = 0 then (writeError 400 ''rate_bytes_per_sec must be greater than 0'', s)
               else if 4294967295 < rate then (writeError 400 ''rate_bytes_per_sec must not exceed 4294967295'', s)
               else (case st_Set mark (ucast rate) s of
                       (Some e, s') \<Rightarrow> (writeError 500 (''failed to set rate: '' @ e), s')
                     | (None, s') \<Rightarrow>
                         (writeJSON 200 (json_Entry \<lparr>en_Mark = mark, en_RateBytesPerSec = ucast rate\<rparr>), s'))))"

definition handleDelete :: "(u32 \<Rightarrow> 's action) \<Rightarrow> string \<Rightarrow> 's \<Rightarrow> response \<times> 's" where
  "handleDelete st_Delete raw s =
     (case parseMark raw of
        Inl e \<Rightarrow> (writeError 400 e, s)
      | Inr mark \<Rightarrow>
          (case st_Delete mark s of
             (Some e, s') \<Rightarrow> (writeError 500 (''failed to delete mark: '' @ e), s')
           | (None, s') \<Rightarrow> (http_status 204, s')))"

definition handleList :: "(Entry list \<Rightarrow> Entry list) \<Rightarrow> ('s \<Rightarrow> Entry list go_result) \<Rightarrow> 's \<Rightarrow> response" where
  "handleList sorter st_List s =
     (case st_List s of
        Inl e \<Rightarrow> writeError 500 (''failed to list marks: '' @ e)
      | Inr entries \<Rightarrow> writeJSON 200 (JArr (map json_Entry (sorter entries))))"

text \<open>The loop that fills the map of rates, and the lookup of an absent key, which is 0.\<close>

definition rates_of :: "Entry list \<Rightarrow> (u32, u32) gomap" where
  "rates_of entries = fold (\<lambda>e. gm_set (en_Mark e) (en_RateBytesPerSec e)) entries []"

definition rate_or_0 :: "(u32, u32) gomap \<Rightarrow> u32 \<Rightarrow> u32" where
  "rate_or_0 rates m = (case gm_get rates m of None \<Rightarrow> 0 | Some r \<Rightarrow> r)"

definition handleUsers :: "(userMark list \<Rightarrow> userMark list) \<Rightarrow> ('s \<Rightarrow> Entry list go_result) \<Rightarrow>
    (string, u32) gomap \<Rightarrow> 's \<Rightarrow> response" where
  "handleUsers sorter st_List marks s =
     (case st_List s of
        Inl e \<Rightarrow> writeError 500 (''failed to list marks: '' @ e)
      | Inr entries \<Rightarrow>
          let rates = rates_of entries;
              users = map (\<lambda>(email, mark).
                \<lparr>um_Email = email, um_Mark = mark, um_RateBytesPerSec = rate_or_0 rates mark\<rparr>) marks
          in writeJSON 200 (JArr (map json_userMark (sorter users))))"

definition handleHealthz :: response where
  "handleHealthz = \<lparr>rs_status = 200, rs_body = TextBody ''ok''\<rparr>"

section \<open>The server\<close>

text \<open>A server's parts: the store's operations and the sorting of its two lists.\<close>

record 's api_server =
  as_Set :: "u32 \<Rightarrow> u32 \<Rightarrow> 's action"
  as_Delete :: "u32 \<Rightarrow> 's action"
  as_List :: "'s \<Rightarrow> Entry list go_result"
  as_sortEntries :: "Entry list \<Rightarrow> Entry list"
  as_sortUsers :: "userMark list \<Rightarrow> userMark list"

text \<open>Routing by the patterns of \<open>New\<close>: a GET pattern also takes HEAD, a known path with another
  method is answered 405, and anything else 404.\<close>

definition api_ServeHTTP :: "'s api_server \<Rightarrow> string \<Rightarrow> (string, u32) gomap \<Rightarrow> request \<Rightarrow> 's \<Rightarrow> response \<times> 's" where
  "api_ServeHTTP srv json_err marks r s =
     (let get = rq_method r = ''GET'' \<or> rq_method r = ''HEAD'';
          not_allowed = (http_Error ''Method Not Allowed'' 405, s) in
      case rq_path r of
        [p] \<Rightarrow>
          if p = ''marks'' then if get then (handleList (as_sortEntries srv) (as_List srv) s, s) else not_allowed
          else if p = ''users'' then
            if get then (handleUsers (as_sortUsers srv) (as_List srv) marks s, s) else not_allowed
          else if p = ''healthz'' then if get then (handleHealthz, s) else not_allowed
          else (http_Error ''404 page not found'' 404, s)
      | [p, mark] \<Rightarrow>
          if p = ''marks'' \<and> mark \<noteq> []
          then if rq_method r = ''PUT'' then handleSet (as_Set srv) json_err mark (rq_body r) s
               else if rq_method r = ''DELETE'' then handleDelete (as_Delete srv) mark s
               else not_allowed
          else (http_Error ''404 page not found'' 404, s)
      | _ \<Rightarrow> (http_Error ''404 page not found'' 404, s))"

section \<open>Marks and rates in requests\<close>

lemma parseMark_fmt: "parseMark (fmt_d (unat m)) = Inr m"
proof -
  have "unat m < 2 ^ 32" by simp
  then show ?thesis by (simp add: parseMark_def del: unat_lt2p32)
qed

lemma u32_of_u64:
  assumes "\<not> 4294967295 < (rate :: u64)"
  shows "unat (ucast rate :: u32) = unat rate"
proof -
  have "unat rate \<le> 4294967295" using assms by (simp add: word_less_nat_alt)
  then show ?thesis by (simp add: unsigned_ucast_eq take_bit_eq_mod)
qed

lemma handleSet_cases:
  assumes "handleSet st_Set json_err raw body s = (resp, s')"
  obtains (bad) "rs_status resp = 400" "s' = s"
    "(\<exists>e. parseMark raw = Inl e) \<or> decode_into dec_setRequest 0 body = None \<or>
      (\<exists>rate. decode_into dec_setRequest 0 body = Some rate \<and> \<not> (0 < unat rate \<and> unat rate \<le> 4294967295))"
  | (failed) mark rate e where "parseMark raw = Inr mark" "decode_into dec_setRequest 0 body = Some rate"
      "0 < unat rate" "unat rate \<le> 4294967295" "st_Set mark (ucast rate) s = (Some e, s')" "rs_status resp = 500"
  | (set) mark rate where "parseMark raw = Inr mark" "decode_into dec_setRequest 0 body = Some rate"
      "0 < unat rate" "unat rate \<le> 4294967295" "st_Set mark (ucast rate) s = (None, s')"
      "resp = writeJSON 200 (json_Entry \<lparr>en_Mark = mark, en_RateBytesPerSec = ucast rate\<rparr>)"
proof (cases "parseMark raw")
  case (Inl e)
  with assms bad show ?thesis by (auto simp: handleSet_def writeError_def writeJSON_def)
next
  case m: (Inr mark)
  show ?thesis
  proof (cases "decode_into dec_setRequest 0 body")
    case None
    with m assms bad show ?thesis by (auto simp: handleSet_def writeError_def writeJSON_def)
  next
    case r: (Some rate)
    have z: "rate = 0 \<longleftrightarrow> \<not> 0 < unat rate" by (simp add: unat_eq_zero)
    have b: "4294967295 < rate \<longleftrightarrow> \<not> unat rate \<le> 4294967295" by (simp add: word_less_nat_alt not_le)
    show ?thesis
    proof (cases "0 < unat rate \<and> unat rate \<le> 4294967295")
      case False
      with m r assms bad z b show ?thesis
        by (auto simp: handleSet_def writeError_def writeJSON_def split: if_splits)
    next
      case True
      then have t: "rate \<noteq> 0" "\<not> 4294967295 < rate" using z b by auto
      obtain e s1 where "st_Set mark (ucast rate) s = (e, s1)" by fastforce
      with m r assms True t failed set show ?thesis
        by (cases e) (auto simp: handleSet_def writeError_def writeJSON_def)
    qed
  qed
qed

lemma handleDelete_cases:
  assumes "handleDelete st_Delete raw s = (resp, s')"
  obtains (bad) e where "parseMark raw = Inl e" "rs_status resp = 400" "s' = s"
  | (failed) mark e where "parseMark raw = Inr mark" "st_Delete mark s = (Some e, s')" "rs_status resp = 500"
  | (deleted) mark where "parseMark raw = Inr mark" "st_Delete mark s = (None, s')" "rs_status resp = 204"
  using assms
  by (auto simp: handleDelete_def writeError_def writeJSON_def http_status_def split: sum.splits prod.splits option.splits)

section \<open>Lists\<close>

text \<open>The documented behaviour of \<open>sort.Slice\<close> with a comparison of keys.\<close>

definition sorts_by :: "('a \<Rightarrow> 'b::linorder) \<Rightarrow> ('a list \<Rightarrow> 'a list) \<Rightarrow> bool" where
  "sorts_by key sorter \<longleftrightarrow> (\<forall>xs. mset (sorter xs) = mset xs \<and> sorted (map key (sorter xs)))"

lemma sorts_by_sort_key: "sorts_by key (sort_key key)"
  by (simp add: sorts_by_def)

lemma sorts_by_set: "sorts_by key sorter \<Longrightarrow> set (sorter xs) = set xs"
  by (metis sorts_by_def set_mset_mset)

lemma sorts_by_distinct: "sorts_by key sorter \<Longrightarrow> distinct (map f (sorter xs)) = distinct (map f xs)"
  by (metis sorts_by_def mset_map mset_eq_imp_distinct_iff)

text \<open>With distinct keys the sorted list is determined by its elements.\<close>

lemma sorts_by_unique:
  assumes "sorts_by key sorter" "sorts_by key sorter'" "distinct (map key xs)" "distinct (map key ys)" "set xs = set ys"
  shows "sorter xs = sorter' ys"
proof (rule map_sorted_distinct_set_unique)
  show "inj_on key (set (sorter xs) \<union> set (sorter' ys))"
    using assms(3,5) sorts_by_set [OF assms(1)] sorts_by_set [OF assms(2)] by (simp add: distinct_map)
  show "sorted (map key (sorter xs))" "sorted (map key (sorter' ys))"
    using assms(1,2) by (simp_all add: sorts_by_def)
qed (simp_all add: sorts_by_distinct [OF assms(1)] sorts_by_distinct [OF assms(2)]
    sorts_by_set [OF assms(1)] sorts_by_set [OF assms(2)] assms(3,4,5))

context limit_store
begin

lemma handleList_entries:
  assumes "st_inv s" "st_List s = Inr es" "sorts_by en_Mark sorter"
  shows "handleList sorter st_List s = writeJSON 200 (JArr (map json_Entry (sorter es))) \<and>
    sorted (map en_Mark (sorter es)) \<and> distinct (map en_Mark (sorter es)) \<and>
    (\<forall>m r. \<lparr>en_Mark = m, en_RateBytesPerSec = r\<rparr> \<in> set (sorter es) \<longleftrightarrow> st_Get m s = Some r)"
  using assms List_distinct [OF assms(1,2)] List_Get [OF assms(1,2)]
  by (auto simp: handleList_def sorts_by_set sorts_by_distinct) (simp add: sorts_by_def)

text \<open>The response depends on the rates only, not on the order the store lists them in or on
  how they are sorted.\<close>

lemma handleList_canonical:
  assumes "st_inv s" "st_List s = Inr es" "st_inv s'" "st_List s' = Inr es'" "view s = view s'"
    and "sorts_by en_Mark sorter" "sorts_by en_Mark sorter'"
  shows "handleList sorter st_List s = handleList sorter' st_List s'"
proof -
  have "e \<in> set es \<longleftrightarrow> e \<in> set es'" for e
    using List_Get [OF assms(1,2), of "en_Mark e" "en_RateBytesPerSec e"]
      List_Get [OF assms(3,4), of "en_Mark e" "en_RateBytesPerSec e"] fun_cong [OF assms(5), of "en_Mark e"] by simp
  then have "sorter es = sorter' es'"
    by (intro sorts_by_unique [OF assms(6,7)] List_distinct [OF assms(1,2)] List_distinct [OF assms(3,4)]) auto
  then show ?thesis using assms(2,4) by (simp add: handleList_def)
qed

lemma rates_of_get:
  "distinct (map en_Mark es) \<Longrightarrow>
     gm_get (fold (\<lambda>e. gm_set (en_Mark e) (en_RateBytesPerSec e)) es m0) m =
     (case map_of (map (\<lambda>e. (en_Mark e, en_RateBytesPerSec e)) es) m of None \<Rightarrow> gm_get m0 m | Some r \<Rightarrow> Some r)"
proof (induction es arbitrary: m0)
  case (Cons e es)
  have "gm_get (map (\<lambda>e. (en_Mark e, en_RateBytesPerSec e)) es) (en_Mark e) = None"
    using Cons.prems by (simp add: map_of_eq_None_iff image_image)
  with Cons show ?case by (auto split: option.splits)
qed simp

lemma rates_of_view: "st_inv s \<Longrightarrow> st_List s = Inr es \<Longrightarrow> gm_get (rates_of es) m = st_Get m s"
  using rates_of_get [OF List_distinct, of s es "[]" m] fun_cong [OF List_view [of s es], of m]
  by (simp add: rates_of_def split: option.splits)

end

section \<open>Properties\<close>

text \<open>
  C9. PUT and DELETE of a mark are all or nothing: answered 200 (204), the mark has the rate asked
  for, between 1 and 4294967295 bytes per second and not truncated (has none), in the store and in
  tc; answered 500, no rate and no limit has changed; and a request answered 400 has not even run
  a command.
\<close>

theorem api_updates:
  assumes "memoryStore_inv b"
  shows "(case handleSet (store_Set s) json_err raw body (b, os) of (resp, (b', os')) \<Rightarrow>
      (rs_status resp = 200 \<and> (\<exists>mark rate. parseMark raw = Inr mark \<and>
          decode_into dec_setRequest 0 body = Some rate \<and> 1 \<le> unat rate \<and> unat rate \<le> 4294967295 \<and>
          unat (ucast rate :: u32) = unat rate \<and> store_Get mark (b', os') = Some (ucast rate) \<and>
          enforced s v0 os' = (enforced s v0 os)(mark \<mapsto> ucast rate))) \<or>
      (rs_status resp = 500 \<and> b' = b \<and> enforced s v0 os' = enforced s v0 os) \<or>
      (rs_status resp = 400 \<and> b' = b \<and> os' = os)) \<and>
    (case handleDelete (store_Delete s) raw (b, os) of (resp, (b', os')) \<Rightarrow>
      (rs_status resp = 204 \<and> (\<exists>mark. parseMark raw = Inr mark \<and> store_Get mark (b', os') = None \<and>
          enforced s v0 os' = (enforced s v0 os)(mark := None))) \<or>
      (rs_status resp = 500 \<and> b' = b \<and> enforced s v0 os' = enforced s v0 os) \<or>
      (rs_status resp = 400 \<and> b' = b \<and> os' = os))"
proof (intro conjI)
  obtain resp b' os' where r: "handleSet (store_Set s) json_err raw body (b, os) = (resp, (b', os'))"
    by (metis surj_pair)
  then show "case handleSet (store_Set s) json_err raw body (b, os) of (resp, (b', os')) \<Rightarrow>
      (rs_status resp = 200 \<and> (\<exists>mark rate. parseMark raw = Inr mark \<and>
          decode_into dec_setRequest 0 body = Some rate \<and> 1 \<le> unat rate \<and> unat rate \<le> 4294967295 \<and>
          unat (ucast rate :: u32) = unat rate \<and> store_Get mark (b', os') = Some (ucast rate) \<and>
          enforced s v0 os' = (enforced s v0 os)(mark \<mapsto> ucast rate))) \<or>
      (rs_status resp = 500 \<and> b' = b \<and> enforced s v0 os' = enforced s v0 os) \<or>
      (rs_status resp = 400 \<and> b' = b \<and> os' = os)"
  proof (cases rule: handleSet_cases)
    case (failed mark rate e)
    with xray.Set_outcome [OF assms failed(5) [unfolded store_Set_def], of v0] r show ?thesis by simp
  next
    case (set mark rate)
    have "\<not> 4294967295 < rate" using set(4) by (simp add: word_less_nat_alt)
    from u32_of_u64 [OF this] set xray.Set_outcome [OF assms set(5) [unfolded store_Set_def], of v0] r
    show ?thesis by (simp add: writeJSON_def xstore_defs shapedStore_Get_def)
  qed (use r in simp)
next
  obtain resp b' os' where r: "handleDelete (store_Delete s) raw (b, os) = (resp, (b', os'))"
    by (metis surj_pair)
  then show "case handleDelete (store_Delete s) raw (b, os) of (resp, (b', os')) \<Rightarrow>
      (rs_status resp = 204 \<and> (\<exists>mark. parseMark raw = Inr mark \<and> store_Get mark (b', os') = None \<and>
          enforced s v0 os' = (enforced s v0 os)(mark := None))) \<or>
      (rs_status resp = 500 \<and> b' = b \<and> enforced s v0 os' = enforced s v0 os) \<or>
      (rs_status resp = 400 \<and> b' = b \<and> os' = os)"
  proof (cases rule: handleDelete_cases)
    case (failed mark e)
    with xray.Delete_outcome [OF assms failed(2) [unfolded store_Delete_def], of v0] r show ?thesis by simp
  next
    case (deleted mark)
    with xray.Delete_outcome [OF assms deleted(2) [unfolded store_Delete_def], of v0] r
    show ?thesis by (simp add: xstore_defs shapedStore_Get_def)
  qed (use r in simp)
qed

lemma example_rate: "decode_into dec_setRequest 0 (''{'' @ jq ''rate_bytes_per_sec'' @ '':125000}'') = Some 125000"
proof -
  have "json_decode (''{'' @ jq ''rate_bytes_per_sec'' @ '':125000}'') =
      Some (JObj [(''rate_bytes_per_sec'', JNum ''125000'')])"
    by code_simp
  moreover have "ParseUint ''125000'' 10 64 = Some 125000"
    using ParseUint_fmt_d [of 125000 64] by (simp add: fmt_eval)
  ultimately show ?thesis
    by (simp add: decode_into_def dec_setRequest_def find_field_def dec_field_def)
qed

theorem api_updates_witness:
  "\<exists>x'. handleSet (store_Set eth0_4) [] ''65578'' (''{'' @ jq ''rate_bytes_per_sec'' @ '':125000}'')
      (NewMemoryStore, os_always (ok_result [])) =
        (writeJSON 200 (json_Entry \<lparr>en_Mark = 65578, en_RateBytesPerSec = 125000\<rparr>), x') \<and>
    enforced eth0_4 Map.empty (snd x') 65578 = Some 125000"
proof -
  have m: "parseMark ''65578'' = Inr 65578" using parseMark_fmt [of 65578] by (simp add: fmt_eval)
  obtain x' where x': "store_Set eth0_4 65578 125000 (NewMemoryStore, os_always (ok_result [])) = (None, x')"
    using store_shape_answered [of eth0_4 "OpSet 65578 125000" "os_always (ok_result [])"] user_mark_example
    by (auto simp: store_shape_def xstore_defs shapedStore_Set_def memoryStore_Set_def)
  let ?r = "handleSet (store_Set eth0_4) [] ''65578'' (''{'' @ jq ''rate_bytes_per_sec'' @ '':125000}'')
      (NewMemoryStore, os_always (ok_result []))"
  have r: "?r = (writeJSON 200 (json_Entry \<lparr>en_Mark = 65578, en_RateBytesPerSec = 125000\<rparr>), x')"
    by (simp add: handleSet_def m example_rate [simplified] x' word_less_nat_alt)
  from api_updates [OF NewMemoryStore_inv, where ?v0.0 = Map.empty and s = eth0_4 and json_err = "[]" and raw = "''65578''"
      and body = "''{'' @ jq ''rate_bytes_per_sec'' @ '':125000}''" and os = "os_always (ok_result [])"] r
  show ?thesis by (cases x') (auto simp: writeJSON_def m example_rate [simplified])
qed

text \<open>
  C34. GET /marks lists exactly the marks with a rate, once each and in increasing order, and the
  response is a function of the rates alone: the order in which the store's map is iterated and the
  way \<open>sort.Slice\<close> orders equal elements cannot show.
\<close>

theorem api_list_canonical:
  assumes "memoryStore_inv (fst x)" "memoryStore_inv (fst y)"
    and "\<forall>m. store_Get m x = store_Get m y" "sorts_by en_Mark sorter" "sorts_by en_Mark sorter'"
  shows "\<exists>es. handleList sorter store_List x = writeJSON 200 (JArr (map json_Entry es)) \<and>
    handleList sorter' store_List y = writeJSON 200 (JArr (map json_Entry es)) \<and>
    sorted (map en_Mark es) \<and> distinct (map en_Mark es) \<and>
    (\<forall>m r. \<lparr>en_Mark = m, en_RateBytesPerSec = r\<rparr> \<in> set es \<longleftrightarrow> store_Get m x = Some r)"
proof -
  obtain es where es: "store_List x = Inr es" using mem.List_total by (auto simp: xstore_defs shapedStore_List_def)
  obtain es' where es': "store_List y = Inr es'" using mem.List_total by (auto simp: xstore_defs shapedStore_List_def)
  have "(\<lambda>m. store_Get m x) = (\<lambda>m. store_Get m y)" using assms(3) by simp
  from xstore.handleList_entries [OF assms(1) es assms(4)]
    xstore.handleList_canonical [OF assms(1) es assms(2) es' this assms(4,5)]
  show ?thesis by auto
qed

theorem api_list_canonical_witness:
  "handleList (sort_key en_Mark) store_List (\<lparr>ms_entries = [(9, 3), (7, 5)]\<rparr>, os_always (ok_result [])) =
   handleList (sort_key en_Mark) store_List (\<lparr>ms_entries = [(7, 5), (9, 3)]\<rparr>, os_always (ok_result []))"
proof -
  let ?x = "(\<lparr>ms_entries = [(9, 3), (7, 5)]\<rparr>, os_always (ok_result []))"
  let ?y = "(\<lparr>ms_entries = [(7, 5), (9, 3)]\<rparr>, os_always (ok_result []))"
  have i: "memoryStore_inv (fst ?x)" "memoryStore_inv (fst ?y)" by (simp_all add: memoryStore_inv_def gm_ok_def)
  have "\<forall>m. store_Get m ?x = store_Get m ?y" by (simp add: store_Get_def shapedStore_Get_def memoryStore_Get_def)
  from api_list_canonical [OF i this sorts_by_sort_key sorts_by_sort_key] show ?thesis by auto
qed



end
