(* ===== verification/Conntrack.thy ===== *)
theory Conntrack
  imports Go_Netip
begin

text \<open>
  \<open>internal/conntrack\<close>: marking a live connection through ctnetlink. The requests are the trees
  of calls the code makes to the netlink library (its constants and its serialisation stay
  symbolic), the kernel is an arbitrary environment \<open>kernel\<close>: it opens sockets, takes a batch and
  gives the results of the following reads, lists the interface addresses, and tells the time. A
  read that times out (\<open>SO_RCVTIMEO\<close>) is an error, so the reads of a batch are a finite list, after
  which only the timeout comes.
\<close>

section \<open>Addresses\<close>

text \<open>\<open>netlink.FAMILY_V4\<close> and \<open>netlink.FAMILY_V6\<close>.\<close>

datatype family = V4 | V6

datatype ct_error =
    UnsupportedProtocol string
  | InvalidIP IP
  | ListingAddresses go_error
  | OpeningSocket go_error
  | SendingUpdates go_error
  | ReadingReplies go_error
  | ParsingReplies go_error
  | UpdatingMark int
  | NoEntry string IP u16 IP u16

definition protocolNumber :: "string \<Rightarrow> ct_error + u8" where
  "protocolNumber proto = (if proto = ''tcp'' then Inr 6 else Inl (UnsupportedProtocol proto))"

definition ipFamilyOf :: "IP \<Rightarrow> ct_error + (family \<times> IP)" where
  "ipFamilyOf ip =
     (case To4 ip of
        Some ip4 \<Rightarrow> Inr (V4, ip4)
      | None \<Rightarrow> (case To16 ip of Some ip16 \<Rightarrow> Inr (V6, ip16) | None \<Rightarrow> Inl (InvalidIP ip)))"

text \<open>\<open>of_family family ip\<close>: the address in the form ctnetlink expects, if it is of the family.\<close>

definition of_family :: "family \<Rightarrow> IP \<Rightarrow> IP option" where
  "of_family family ip =
     (case ipFamilyOf ip of Inr (f, ip') \<Rightarrow> if f = family then Some ip' else None | Inl _ \<Rightarrow> None)"

definition candidateDsts :: "IP \<Rightarrow> family \<Rightarrow> IP list \<Rightarrow> IP list" where
  "candidateDsts dstIP family local =
     (if \<not> IsUnspecified dstIP
      then case of_family family dstIP of Some ip \<Rightarrow> [ip] | None \<Rightarrow> []
      else List.map_filter (of_family family) local)"

section \<open>Requests\<close>

datatype nl_const =
    CTA_TUPLE_IP | CTA_TUPLE_PROTO | CTA_TUPLE_ORIG | CTA_MARK
  | CTA_IP_V4_SRC | CTA_IP_V4_DST | CTA_IP_V6_SRC | CTA_IP_V6_DST
  | CTA_PROTO_NUM | CTA_PROTO_SRC_PORT | CTA_PROTO_DST_PORT

text \<open>An attribute: whether \<open>NLA_F_NESTED\<close> is set, its type, its data or its children. \<open>BE16\<close> and
  \<open>BE32\<close> are \<open>nl.BEUint16Attr\<close> and \<open>nl.BEUint32Attr\<close>.\<close>

datatype nl_payload = NoData | Bytes "u8 list" | BE16 u16 | BE32 u32
datatype rtattr = RtAttr bool nl_const nl_payload "rtattr list"

datatype nl_data = Nfgenmsg family | Attr rtattr

text \<open>\<open>nl.NewNetlinkRequest\<close> with the conntrack table's \<open>IPCTNL_MSG_CT_NEW\<close> and the flag
  \<open>NLM_F_ACK\<close> alone; the library gives each request its sequence number.\<close>

record ct_request =
  cr_Seq :: u32
  cr_flags_create :: bool
  cr_Data :: "nl_data list"

definition markRequest :: "u32 \<Rightarrow> family \<Rightarrow> u8 \<Rightarrow> IP \<Rightarrow> u16 \<Rightarrow> IP \<Rightarrow> u16 \<Rightarrow> u32 \<Rightarrow> ct_request" where
  "markRequest seq family proto srcIP srcPort dstIP dstPort mark =
     (let (srcAttr, dstAttr) =
            (if family = V6 then (CTA_IP_V6_SRC, CTA_IP_V6_DST) else (CTA_IP_V4_SRC, CTA_IP_V4_DST));
          tupleIP = RtAttr True CTA_TUPLE_IP NoData
            [RtAttr False srcAttr (Bytes srcIP) [], RtAttr False dstAttr (Bytes dstIP) []];
          tupleProto = RtAttr True CTA_TUPLE_PROTO NoData
            [RtAttr False CTA_PROTO_NUM (Bytes [proto]) [],
             RtAttr False CTA_PROTO_SRC_PORT (BE16 srcPort) [],
             RtAttr False CTA_PROTO_DST_PORT (BE16 dstPort) []];
          tupleOrig = RtAttr True CTA_TUPLE_ORIG NoData [tupleIP, tupleProto]
      in \<lparr>cr_Seq = seq, cr_flags_create = False,
          cr_Data = [Nfgenmsg family, Attr tupleOrig, Attr (RtAttr False CTA_MARK (BE32 mark) [])]\<rparr>)"

section \<open>Replies\<close>

record nl_msg =
  nm_Seq :: u32
  nm_is_error :: bool   \<comment> \<open>the type is \<open>NLMSG_ERROR\<close>\<close>
  nm_Data :: "u8 list"

text \<open>One \<open>Recvfrom\<close> and \<open>ParseNetlinkMessage\<close>.\<close>

datatype recv = RecvError go_error | ParseError go_error | Msgs "nl_msg list"

text \<open>An errno: the negated \<open>int32\<close> in the first four bytes, read by \<open>binary.NativeEndian\<close>, an
  argument since it depends on the machine. Results are \<open>None\<close> for nil.\<close>

type_synonym native_endian = "u8 list \<Rightarrow> u32"

definition msg_errno :: "native_endian \<Rightarrow> nl_msg \<Rightarrow> int" where
  "msg_errno native msg = sint (- native (take 4 (nm_Data msg)) :: u32)"

definition ENOENT :: int where "ENOENT = 2"

record ack_state =
  ak_index :: "(u32, nat) gomap"
  ak_pending :: nat
  ak_results :: "int option list"

definition handle_msg :: "native_endian \<Rightarrow> nl_msg \<Rightarrow> ack_state \<Rightarrow> ack_state" where
  "handle_msg native msg st =
     (case gm_get (ak_index st) (nm_Seq msg) of
        None \<Rightarrow> st
      | Some i \<Rightarrow>
          if \<not> nm_is_error msg \<or> length (nm_Data msg) < 4 then st
          else st\<lparr>ak_index := gm_delete (nm_Seq msg) (ak_index st),
                  ak_pending := ak_pending st - 1,
                  ak_results := (if msg_errno native msg \<noteq> 0
                    then (ak_results st)[i := Some (msg_errno native msg)] else ak_results st)\<rparr>)"

definition exchange_init :: "ct_request list \<Rightarrow> ack_state" where
  "exchange_init reqs =
     \<lparr>ak_index = fold (\<lambda>(i, r). gm_set (cr_Seq r) i) (enumerate 0 reqs) [],
      ak_pending = length reqs, ak_results = replicate (length reqs) None\<rparr>"

fun exchange_loop :: "native_endian \<Rightarrow> go_error \<Rightarrow> recv list \<Rightarrow> ack_state \<Rightarrow> ct_error + int option list" where
  "exchange_loop native timeout recvs st =
     (if ak_pending st = 0 then Inr (ak_results st)
      else case recvs of
        [] \<Rightarrow> Inl (ReadingReplies timeout)
      | RecvError e # _ \<Rightarrow> Inl (ReadingReplies e)
      | ParseError e # _ \<Rightarrow> Inl (ParsingReplies e)
      | Msgs msgs # rest \<Rightarrow> exchange_loop native timeout rest (fold (handle_msg native) msgs st))"

declare exchange_loop.simps [simp del]

text \<open>The kernel's answer to a batch: the result of \<open>Sendto\<close>, then the reads.\<close>

definition exchange :: "native_endian \<Rightarrow> go_error \<Rightarrow> err_opt \<times> recv list \<Rightarrow> ct_request list \<Rightarrow>
    ct_error + int option list" where
  "exchange native timeout answer reqs =
     (case fst answer of
        Some e \<Rightarrow> Inl (SendingUpdates e)
      | None \<Rightarrow> exchange_loop native timeout (snd answer) (exchange_init reqs))"

section \<open>The Marker\<close>

definition localAddrsTTL :: duration where "localAddrsTTL = 5 * time_Second"
definition socketPoolSize :: nat where "socketPoolSize = 8"

text \<open>\<open>sockets\<close> is a buffered channel of idle sockets, here by their descriptors; the mutex of the
  address cache makes \<open>localAddrs\<close> one step.\<close>

record Marker =
  mk_sockets :: "int list"
  mk_addrs :: "IP list option"
  mk_addrsFetched :: time

definition NewMarker :: Marker where
  "NewMarker = \<lparr>mk_sockets = [], mk_addrs = None, mk_addrsFetched = 0\<rparr>"

text \<open>What the kernel and the standard library do for a call: the time, the addresses (whether one is
  an \<open>*net.IPNet\<close>, and its IP), opening a socket, binding it and setting its read timeout, the sequence numbers the library gives out, the
  answer on a socket.\<close>

record kernel =
  k_now :: time
  k_fetched_now :: time
  k_InterfaceAddrs :: "(bool \<times> IP) list go_result"
  k_Socket :: "int go_result"
  k_Bind :: "int \<Rightarrow> err_opt"
  k_SetTimeout :: "int \<Rightarrow> err_opt"
  k_seqs :: "nat \<Rightarrow> u32"
  k_answer :: "int \<Rightarrow> ct_request list \<Rightarrow> err_opt \<times> recv list"
  k_native :: native_endian
  k_timeout :: go_error

definition localAddrs :: "kernel \<Rightarrow> Marker \<Rightarrow> IP list go_result \<times> Marker" where
  "localAddrs k m =
     (case mk_addrs m of
        Some addrs \<Rightarrow>
          if time_Sub (k_now k) (mk_addrsFetched m) < localAddrsTTL then (Inr addrs, m)
          else (case k_InterfaceAddrs k of
                  Inl e \<Rightarrow> (Inl e, m)
                | Inr as \<Rightarrow>
                    let ips = map snd (filter fst as)
                    in (Inr ips, m\<lparr>mk_addrs := Some ips, mk_addrsFetched := k_fetched_now k\<rparr>))
      | None \<Rightarrow>
          (case k_InterfaceAddrs k of
             Inl e \<Rightarrow> (Inl e, m)
           | Inr as \<Rightarrow>
               let ips = map snd (filter fst as)
               in (Inr ips, m\<lparr>mk_addrs := Some ips, mk_addrsFetched := k_fetched_now k\<rparr>)))"

text \<open>A new socket, and the descriptors closed again on the way. Setting \<open>NETLINK_CAP_ACK\<close> may fail.\<close>

definition newCTSocket :: "kernel \<Rightarrow> int go_result \<times> int list" where
  "newCTSocket k =
     (case k_Socket k of
        Inl e \<Rightarrow> (Inl e, [])
      | Inr fd \<Rightarrow>
          (case k_Bind k fd of
             Some e \<Rightarrow> (Inl e, [fd])
           | None \<Rightarrow>
               (case k_SetTimeout k fd of
                  Some e \<Rightarrow> (Inl e, [fd])
                | None \<Rightarrow> (Inr fd, []))))"

definition getSocket :: "kernel \<Rightarrow> Marker \<Rightarrow> int go_result \<times> Marker" where
  "getSocket k m =
     (case mk_sockets m of
        s # rest \<Rightarrow> (Inr s, m\<lparr>mk_sockets := rest\<rparr>)
      | [] \<Rightarrow> (fst (newCTSocket k), m))"

text \<open>The socket is closed instead if the pool is full: the second component.\<close>

definition putSocket :: "int \<Rightarrow> Marker \<Rightarrow> Marker \<times> int list" where
  "putSocket s m =
     (if length (mk_sockets m) < socketPoolSize then (m\<lparr>mk_sockets := mk_sockets m @ [s]\<rparr>, [])
      else (m, [s]))"

text \<open>The verdict on a batch's results: the number marked, or the first error other than
  \<open>ENOENT\<close>.\<close>

fun count_marked :: "int option list \<Rightarrow> nat \<Rightarrow> ct_error + nat" where
  "count_marked [] marked = Inr marked"
| "count_marked (None # rs) marked = count_marked rs (marked + 1)"
| "count_marked (Some e # rs) marked = (if e \<noteq> ENOENT then Inl (UpdatingMark e) else count_marked rs marked)"

definition mark_requests :: "kernel \<Rightarrow> family \<Rightarrow> u8 \<Rightarrow> IP \<Rightarrow> u16 \<Rightarrow> IP list \<Rightarrow> u16 \<Rightarrow> u32 \<Rightarrow> ct_request list" where
  "mark_requests k family protoNum srcIP srcPort dsts dstPort mark =
     map (\<lambda>(i, dst). markRequest (k_seqs k i) family protoNum srcIP srcPort dst dstPort mark) (enumerate 0 dsts)"

text \<open>The exchange of a non-empty batch, with the socket it uses: the number marked, the Marker,
  the sockets closed.\<close>

definition send_batch :: "kernel \<Rightarrow> ct_request list \<Rightarrow> Marker \<Rightarrow> (ct_error + nat) \<times> Marker \<times> int list" where
  "send_batch k reqs m =
     (if reqs = [] then (Inr 0, m, [])
      else case getSocket k m of
        (Inl e, m1) \<Rightarrow> (Inl (OpeningSocket e), m1, [])
      | (Inr sock, m1) \<Rightarrow>
          (case exchange (k_native k) (k_timeout k) (k_answer k sock reqs) reqs of
             Inl e \<Rightarrow> (Inl e, m1, [sock])
           | Inr results \<Rightarrow>
               (case putSocket sock m1 of
                  (m2, closed) \<Rightarrow> (count_marked results 0, m2, closed))))"

definition ct_SetMark :: "kernel \<Rightarrow> string \<Rightarrow> IP \<Rightarrow> u16 \<Rightarrow> IP \<Rightarrow> u16 \<Rightarrow> u32 \<Rightarrow> Marker \<Rightarrow>
    ct_error option \<times> Marker \<times> int list" where
  "ct_SetMark k proto srcIP srcPort dstIP dstPort mark m =
     (case protocolNumber proto of
        Inl e \<Rightarrow> (Some e, m, [])
      | Inr protoNum \<Rightarrow>
          (case ipFamilyOf srcIP of
             Inl e \<Rightarrow> (Some e, m, [])
           | Inr (family, srcIP') \<Rightarrow>
               (case (if IsUnspecified dstIP then localAddrs k m else (Inr [], m)) of
                  (Inl e, m1) \<Rightarrow> (Some (ListingAddresses e), m1, [])
                | (Inr local, m1) \<Rightarrow>
                    (case send_batch k (mark_requests k family protoNum srcIP' srcPort
                              (candidateDsts dstIP family local) dstPort mark) m1 of
                       (Inl e, m2, closed) \<Rightarrow> (Some e, m2, closed)
                     | (Inr marked, m2, closed) \<Rightarrow>
                         (if marked = 0 then Some (NoEntry proto srcIP' srcPort dstIP dstPort) else None,
                          m2, closed)))))"

section \<open>Acknowledgements\<close>

text \<open>The first message that acknowledges a sequence number.\<close>

definition is_ack :: "u32 \<Rightarrow> nl_msg \<Rightarrow> bool" where
  "is_ack seq msg \<longleftrightarrow> nm_Seq msg = seq \<and> nm_is_error msg \<and> 4 \<le> length (nm_Data msg)"

definition ack_of :: "nl_msg list \<Rightarrow> u32 \<Rightarrow> nl_msg option" where
  "ack_of msgs seq = find (is_ack seq) msgs"

definition verdict :: "native_endian \<Rightarrow> nl_msg \<Rightarrow> int option" where
  "verdict native msg = (if msg_errno native msg = 0 then None else Some (msg_errno native msg))"

lemma ack_of_snoc:
  "ack_of (ms @ [msg]) q = (case ack_of ms q of None \<Rightarrow> if is_ack q msg then Some msg else None | Some m \<Rightarrow> Some m)"
  unfolding ack_of_def by (induction ms) auto

abbreviation unacked :: "ct_request list \<Rightarrow> nl_msg list \<Rightarrow> nat set" where
  "unacked reqs ms \<equiv> {i. i < length reqs \<and> ack_of ms (cr_Seq (reqs ! i)) = None}"

text \<open>The state after the messages \<open>ms\<close>.\<close>

definition ack_inv :: "native_endian \<Rightarrow> ct_request list \<Rightarrow> nl_msg list \<Rightarrow> ack_state \<Rightarrow> bool" where
  "ack_inv native reqs ms st \<longleftrightarrow>
     length (ak_results st) = length reqs \<and> ak_pending st = card (unacked reqs ms) \<and>
     (\<forall>q i. gm_get (ak_index st) q = Some i \<longleftrightarrow> i \<in> unacked reqs ms \<and> q = cr_Seq (reqs ! i)) \<and>
     (\<forall>i<length reqs. ak_results st ! i =
        (case ack_of ms (cr_Seq (reqs ! i)) of None \<Rightarrow> None | Some msg \<Rightarrow> verdict native msg))"

lemma index_of_reqs:
  assumes "distinct (map cr_Seq reqs)"
  shows "gm_get (fold (\<lambda>(i, r). gm_set (cr_Seq r) i) (enumerate 0 reqs) []) q = Some i \<longleftrightarrow>
    i < length reqs \<and> q = cr_Seq (reqs ! i)"
  using assms
proof (induction reqs arbitrary: i rule: rev_induct)
  case (snoc r reqs)
  have d: "distinct (map cr_Seq reqs)" "cr_Seq r \<notin> cr_Seq ` set reqs" using snoc.prems by auto
  have ne: "cr_Seq (reqs ! j) \<noteq> cr_Seq r" if "j < length reqs" for j
    using d(2) nth_mem [OF that] by (metis imageI)
  show ?case
    using snoc.IH [OF d(1)] ne ne [THEN not_sym]
    by (auto simp: enumerate_append_eq nth_append less_Suc_eq)
qed simp

lemma exchange_init_inv:
  assumes "distinct (map cr_Seq reqs)"
  shows "ack_inv native reqs [] (exchange_init reqs)"
proof -
  have "unacked reqs [] = {..<length reqs}" by (auto simp: ack_of_def)
  then show ?thesis
    by (simp add: ack_inv_def exchange_init_def index_of_reqs [OF assms] ack_of_def)
qed

lemma ack_inv_same:
  assumes "ack_inv native reqs ms st" "\<And>i. i < length reqs \<Longrightarrow> ack_of ms' (cr_Seq (reqs ! i)) = ack_of ms (cr_Seq (reqs ! i))"
  shows "ack_inv native reqs ms' st"
proof -
  have "unacked reqs ms' = unacked reqs ms" using assms(2) by auto
  with assms show ?thesis by (simp add: ack_inv_def)
qed

lemma handle_msg_ack:
  assumes "distinct (map cr_Seq reqs)" "ack_inv native reqs ms st"
    and i: "gm_get (ak_index st) (nm_Seq msg) = Some i" and ack: "is_ack (nm_Seq msg) msg"
  shows "ack_inv native reqs (ms @ [msg]) (handle_msg native msg st)"
proof -
  have iu: "i \<in> unacked reqs ms" "cr_Seq (reqs ! i) = nm_Seq msg" using assms(2) i by (auto simp: ack_inv_def)
  have one: "j = i" if "j < length reqs" "cr_Seq (reqs ! j) = nm_Seq msg" for j
    using that iu nth_eq_iff_index_eq [OF assms(1), of j i] by simp
  have u: "unacked reqs (ms @ [msg]) = unacked reqs ms - {i}"
  proof -
    have "ack_of (ms @ [msg]) (cr_Seq (reqs ! j)) = None \<longleftrightarrow> ack_of ms (cr_Seq (reqs ! j)) = None \<and> j \<noteq> i"
      if "j < length reqs" for j
    proof (cases "j = i")
      case True
      with ack iu show ?thesis by (simp add: ack_of_snoc split: option.splits)
    next
      case False
      with one that have "\<not> is_ack (cr_Seq (reqs ! j)) msg" by (auto simp: is_ack_def)
      with False show ?thesis by (simp add: ack_of_snoc split: option.splits)
    qed
    then show ?thesis by auto
  qed
  have st: "handle_msg native msg st = st\<lparr>ak_index := gm_delete (nm_Seq msg) (ak_index st), ak_pending := ak_pending st - 1,
      ak_results := (if msg_errno native msg \<noteq> 0 then (ak_results st)[i := Some (msg_errno native msg)] else ak_results st)\<rparr>"
    using i ack by (simp add: handle_msg_def is_ack_def)
  have l: "length (ak_results st) = length reqs" "i < length reqs" using assms(2) iu by (auto simp: ack_inv_def)
  have r: "ak_results (handle_msg native msg st) ! j =
      (case ack_of (ms @ [msg]) (cr_Seq (reqs ! j)) of None \<Rightarrow> None | Some m \<Rightarrow> verdict native m)" if j: "j < length reqs" for j
  proof (cases "j = i")
    case True
    moreover have "ack_of (ms @ [msg]) (cr_Seq (reqs ! i)) = Some msg" using iu ack by (simp add: ack_of_snoc)
    moreover have "ak_results st ! i = None" using assms(2) iu by (simp add: ack_inv_def)
    ultimately show ?thesis using l by (simp add: st verdict_def)
  next
    case False
    with one j have "\<not> is_ack (cr_Seq (reqs ! j)) msg" by (auto simp: is_ack_def)
    with False j assms(2) show ?thesis by (simp add: st ack_of_snoc ack_inv_def split: option.splits)
  qed
  have "gm_get (ak_index (handle_msg native msg st)) q = Some j \<longleftrightarrow>
      j \<in> unacked reqs (ms @ [msg]) \<and> q = cr_Seq (reqs ! j)" for q j
  proof -
    have old: "gm_get (ak_index st) q = Some j \<longleftrightarrow> j \<in> unacked reqs ms \<and> q = cr_Seq (reqs ! j)"
      using assms(2) by (simp add: ack_inv_def)
    have new: "gm_get (ak_index (handle_msg native msg st)) q = (if q = nm_Seq msg then None else gm_get (ak_index st) q)"
      by (simp add: st)
    show ?thesis unfolding u new using old iu one [of j] by (cases "q = nm_Seq msg") auto
  qed
  moreover have "ak_pending (handle_msg native msg st) = card (unacked reqs (ms @ [msg]))"
    using assms(2) iu(1) unfolding u by (simp add: st ack_inv_def)
  moreover have "length (ak_results (handle_msg native msg st)) = length reqs" using l by (simp add: st)
  ultimately show ?thesis using r by (simp add: ack_inv_def)
qed

lemma handle_msg_inv:
  assumes "distinct (map cr_Seq reqs)" "ack_inv native reqs ms st"
  shows "ack_inv native reqs (ms @ [msg]) (handle_msg native msg st)"
proof (cases "is_ack (nm_Seq msg) msg \<and> gm_get (ak_index st) (nm_Seq msg) \<noteq> None")
  case True
  with handle_msg_ack [OF assms] show ?thesis by blast
next
  case False
  then have "handle_msg native msg st = st"
    by (auto simp: handle_msg_def is_ack_def split: option.splits)
  moreover have "ack_of (ms @ [msg]) (cr_Seq (reqs ! i)) = ack_of ms (cr_Seq (reqs ! i))" if "i < length reqs" for i
  proof (cases "ack_of ms (cr_Seq (reqs ! i))")
    case None
    then have "gm_get (ak_index st) (cr_Seq (reqs ! i)) = Some i" using assms(2) that by (simp add: ack_inv_def)
    with False have "\<not> is_ack (cr_Seq (reqs ! i)) msg" by (auto simp: is_ack_def)
    with None show ?thesis by (simp add: ack_of_snoc)
  qed (simp add: ack_of_snoc)
  ultimately show ?thesis using ack_inv_same [OF assms(2)] by simp
qed

lemma handle_msgs_inv:
  "distinct (map cr_Seq reqs) \<Longrightarrow> ack_inv native reqs ms st \<Longrightarrow>
     ack_inv native reqs (ms @ new) (fold (handle_msg native) new st)"
proof (induction new arbitrary: ms st)
  case (Cons msg new)
  from Cons.IH [OF Cons.prems(1) handle_msg_inv [OF Cons.prems]] show ?case by simp
qed simp

text \<open>The messages of the reads before the first failed one.\<close>

fun received :: "recv list \<Rightarrow> nl_msg list" where
  "received (Msgs ms # rs) = ms @ received rs"
| "received _ = []"

lemma ack_of_append: "ack_of (ms @ ms') q = (case ack_of ms q of None \<Rightarrow> ack_of ms' q | Some m \<Rightarrow> Some m)"
  unfolding ack_of_def by (induction ms) auto

text \<open>When every request is acknowledged, later messages make no difference.\<close>

lemma exchange_done:
  assumes "ack_inv native reqs ms st" "unacked reqs ms = {}"
  shows "unacked reqs (ms @ later) = {}"
    "exchange_loop native timeout recvs st =
       Inr (map (\<lambda>r. verdict native (the (ack_of (ms @ later) (cr_Seq r)))) reqs)"
proof -
  have acked: "\<exists>m. ack_of ms (cr_Seq (reqs ! i)) = Some m" if "i < length reqs" for i
    using assms(2) that by auto
  then show "unacked reqs (ms @ later) = {}" by (force simp: ack_of_append)
  have "ak_results st = map (\<lambda>r. verdict native (the (ack_of (ms @ later) (cr_Seq r)))) reqs"
  proof (rule nth_equalityI)
    fix i assume "i < length (ak_results st)"
    then have i: "i < length reqs" using assms(1) by (simp add: ack_inv_def)
    with acked [OF i] assms(1) show "ak_results st ! i = map (\<lambda>r. verdict native (the (ack_of (ms @ later) (cr_Seq r)))) reqs ! i"
      by (auto simp: ack_inv_def ack_of_append)
  qed (use assms(1) in \<open>simp add: ack_inv_def\<close>)
  then show "exchange_loop native timeout recvs st =
       Inr (map (\<lambda>r. verdict native (the (ack_of (ms @ later) (cr_Seq r)))) reqs)"
    using assms by (subst exchange_loop.simps) (simp add: ack_inv_def)
qed

text \<open>When nothing more comes, what is acknowledged so far decides.\<close>

lemma exchange_stuck:
  assumes "ack_inv native reqs ms st" "received recvs = [] \<and> (\<forall>m rs. recvs \<noteq> Msgs m # rs)"
  shows "if unacked reqs (ms @ received recvs) = {}
     then exchange_loop native timeout recvs st =
       Inr (map (\<lambda>r. verdict native (the (ack_of (ms @ received recvs) (cr_Seq r)))) reqs)
     else \<exists>e. exchange_loop native timeout recvs st = Inl e"
proof (cases "unacked reqs ms = {}")
  case True
  from exchange_done(2) [OF assms(1) True, of timeout recvs "[]"] True show ?thesis using assms(2) by simp
next
  case False
  then have "ak_pending st \<noteq> 0" using assms(1) by (simp add: ack_inv_def)
  then have "\<exists>e. exchange_loop native timeout recvs st = Inl e"
    using assms(2) by (subst exchange_loop.simps) (auto split: list.splits recv.splits)
  moreover have "unacked reqs (ms @ received recvs) \<noteq> {}" using False assms(2) by simp
  ultimately show ?thesis by (simp only: if_False)
qed

lemma exchange_loop_exact:
  assumes "distinct (map cr_Seq reqs)"
  shows "ack_inv native reqs ms st \<Longrightarrow>
    (if unacked reqs (ms @ received recvs) = {}
     then exchange_loop native timeout recvs st =
       Inr (map (\<lambda>r. verdict native (the (ack_of (ms @ received recvs) (cr_Seq r)))) reqs)
     else \<exists>e. exchange_loop native timeout recvs st = Inl e)"
proof (induction recvs arbitrary: ms st)
  case Nil
  then show ?case by (rule exchange_stuck) simp
next
  case (Cons r recvs)
  show ?case
  proof (cases r)
    case (Msgs new)
    show ?thesis
    proof (cases "unacked reqs ms = {}")
      case True
      then show ?thesis using exchange_done [OF Cons.prems True] by simp
    next
      case False
      then have "ak_pending st \<noteq> 0" using Cons.prems by (simp add: ack_inv_def)
      then have "exchange_loop native timeout (r # recvs) st =
          exchange_loop native timeout recvs (fold (handle_msg native) new st)"
        by (subst exchange_loop.simps) (simp add: Msgs)
      with Cons.IH [OF handle_msgs_inv [OF assms Cons.prems, of new]] Msgs show ?thesis by simp
    qed
  next
    case (RecvError e)
    show ?thesis by (rule exchange_stuck [OF Cons.prems]) (simp add: RecvError)
  next
    case (ParseError e)
    show ?thesis by (rule exchange_stuck [OF Cons.prems]) (simp add: ParseError)
  qed
qed

section \<open>The verdict on a batch\<close>

definition errno_ok :: "int option \<Rightarrow> bool" where
  "errno_ok r \<longleftrightarrow> r = None \<or> r = Some ENOENT"

lemma count_marked_exact:
  "count_marked rs n = (if list_all errno_ok rs then Inr (n + length (filter (\<lambda>r. r = None) rs))
     else Inl (UpdatingMark (the (the (find (\<lambda>r. \<not> errno_ok r) rs)))))"
  by (induction rs n rule: count_marked.induct) (auto simp: errno_ok_def)

text \<open>The addresses a call looks up, and when that can be told.\<close>

lemma of_family_length: "of_family f ip = Some ip' \<Longrightarrow> length ip' = (case f of V4 \<Rightarrow> 4 | V6 \<Rightarrow> 16)"
  by (auto simp: of_family_def ipFamilyOf_def To4_def To16_def split: option.splits if_splits sum.splits)

lemma candidateDsts_length:
  "ip \<in> set (candidateDsts dstIP f local) \<Longrightarrow> length ip = (case f of V4 \<Rightarrow> 4 | V6 \<Rightarrow> 16)"
  by (auto simp: candidateDsts_def List.map_filter_def split: if_splits option.splits intro: of_family_length)

lemma mark_requests_seqs:
  "map cr_Seq (mark_requests k f p src sp dsts dp mark) = map (k_seqs k) [0..<length dsts]"
  by (rule nth_equalityI) (simp_all add: mark_requests_def markRequest_def nth_enumerate_eq Let_def split: prod.splits)

text \<open>Sending a batch, with the results of all its requests.\<close>

lemma exchange_batch:
  assumes "distinct (map cr_Seq reqs)"
  shows "exchange native timeout (sent, recvs) reqs =
      Inr (map (\<lambda>r. verdict native (the (ack_of (received recvs) (cr_Seq r)))) reqs) \<and>
      sent = None \<and> list_all (\<lambda>r. ack_of (received recvs) (cr_Seq r) \<noteq> None) reqs \<or>
    (\<exists>e. exchange native timeout (sent, recvs) reqs = Inl e) \<and>
      \<not> (sent = None \<and> list_all (\<lambda>r. ack_of (received recvs) (cr_Seq r) \<noteq> None) reqs)"
proof (cases sent)
  case None
  have "unacked reqs (received recvs) = {} \<longleftrightarrow> list_all (\<lambda>r. ack_of (received recvs) (cr_Seq r) \<noteq> None) reqs"
    by (auto simp: list_all_length)
  with None exchange_loop_exact [OF assms exchange_init_inv [OF assms], where native = native and recvs = recvs and timeout = timeout] show ?thesis
    by (auto simp: exchange_def split: if_splits)
qed (simp add: exchange_def)

section \<open>The socket pool under concurrency\<close>

text \<open>The sockets in the pool, those a batch is using, and those open. A socket the kernel opens is
  not one that is already open.\<close>

record pool =
  po_marker :: Marker
  po_used :: "int set"
  po_open :: "int set"

inductive pool_step :: "pool \<Rightarrow> pool \<Rightarrow> bool" where
  po_get: "getSocket k (po_marker p) = (Inr s, m) \<Longrightarrow> mk_sockets (po_marker p) = [] \<longrightarrow> s \<notin> po_open p \<Longrightarrow>
    pool_step p (p\<lparr>po_marker := m, po_used := insert s (po_used p), po_open := insert s (po_open p)\<rparr>)"
| po_get_failed: "getSocket k (po_marker p) = (Inl e, m) \<Longrightarrow> \<forall>fd. k_Socket k = Inr fd \<longrightarrow> fd \<notin> po_open p \<Longrightarrow>
    pool_step p (p\<lparr>po_marker := m,
      po_open := po_open p \<union> (case k_Socket k of Inr fd \<Rightarrow> {fd} | Inl _ \<Rightarrow> {}) - set (snd (newCTSocket k))\<rparr>)"
| po_put: "s \<in> po_used p \<Longrightarrow> putSocket s (po_marker p) = (m, closed) \<Longrightarrow>
    pool_step p (p\<lparr>po_marker := m, po_used := po_used p - {s}, po_open := po_open p - set closed\<rparr>)"
| po_failed: "s \<in> po_used p \<Longrightarrow>
    pool_step p (p\<lparr>po_used := po_used p - {s}, po_open := po_open p - {s}\<rparr>)"

definition pool_inv :: "pool \<Rightarrow> bool" where
  "pool_inv p \<longleftrightarrow> length (mk_sockets (po_marker p)) \<le> socketPoolSize \<and> distinct (mk_sockets (po_marker p)) \<and>
     set (mk_sockets (po_marker p)) \<inter> po_used p = {} \<and> po_open p = set (mk_sockets (po_marker p)) \<union> po_used p"

lemma pool_step_inv: "pool_step p p' \<Longrightarrow> pool_inv p \<Longrightarrow> pool_inv p'"
proof (induction rule: pool_step.induct)
  case (po_get k p s m)
  then show ?case
    by (cases "mk_sockets (po_marker p)") (auto simp: getSocket_def pool_inv_def)
next
  case (po_get_failed k p e m)
  then show ?case
    by (cases "mk_sockets (po_marker p)")
       (auto simp: getSocket_def newCTSocket_def pool_inv_def split: sum.splits option.splits)
next
  case (po_put s p m closed)
  then show ?case by (auto simp: putSocket_def pool_inv_def split: if_splits)
next
  case (po_failed s p)
  then show ?case by (auto simp: pool_inv_def)
qed

lemma pool_steps_inv: "pool_step\<^sup>*\<^sup>* p p' \<Longrightarrow> pool_inv p \<Longrightarrow> pool_inv p'"
  by (induction rule: rtranclp_induct) (auto intro: pool_step_inv)

section \<open>Properties\<close>

text \<open>
  C17. A batch returns results exactly when the send succeeded and every request was acknowledged
  before the first failed read; each request's result is then that of the first acknowledgement with
  its own sequence number, whatever the order of the replies, however they are split into reads,
  and whatever other messages come between. Anything else is an error, in finitely many reads.
\<close>

theorem exchange_exact:
  assumes "distinct (map cr_Seq reqs)"
  shows "exchange native timeout (sent, recvs) reqs =
      Inr (map (\<lambda>r. verdict native (the (ack_of (received recvs) (cr_Seq r)))) reqs) \<and>
      sent = None \<and> list_all (\<lambda>r. ack_of (received recvs) (cr_Seq r) \<noteq> None) reqs \<or>
    (\<exists>e. exchange native timeout (sent, recvs) reqs = Inl e) \<and>
      \<not> (sent = None \<and> list_all (\<lambda>r. ack_of (received recvs) (cr_Seq r) \<noteq> None) reqs)"
  by (rule exchange_batch [OF assms])

theorem exchange_exact_witness:
  "exchange (\<lambda>b. if b = [0, 0, 0, 0] then 0 else - 2) ''timeout'' (None, [Msgs [
      \<lparr>nm_Seq = 8, nm_is_error = True, nm_Data = [254, 255, 255, 255]\<rparr>,
      \<lparr>nm_Seq = 7, nm_is_error = True, nm_Data = [0, 0, 0, 0]\<rparr>]])
     [markRequest 7 V4 6 [10, 0, 0, 1] 5000 [10, 0, 0, 2] 443 0x1002a, markRequest 8 V4 6 [10, 0, 0, 1] 5000 [10, 0, 0, 3] 443 0x1002a]
   = Inr [None, Some ENOENT]"
  using exchange_exact [of "[markRequest 7 V4 6 [10, 0, 0, 1] 5000 [10, 0, 0, 2] 443 0x1002a,
      markRequest 8 V4 6 [10, 0, 0, 1] 5000 [10, 0, 0, 3] 443 0x1002a]" "\<lambda>b. if b = [0, 0, 0, 0] then 0 else - 2"
      "''timeout''" None "[Msgs [\<lparr>nm_Seq = 8, nm_is_error = True, nm_Data = [254, 255, 255, 255]\<rparr>,
      \<lparr>nm_Seq = 7, nm_is_error = True, nm_Data = [0, 0, 0, 0]\<rparr>]]"]
  by (simp add: markRequest_def Let_def ack_of_def is_ack_def verdict_def msg_errno_def ENOENT_def)


text \<open>A kernel that has one of two connections: the first local address has no entry.\<close>

definition example_kernel :: kernel where
  "example_kernel = \<lparr>k_now = 0, k_fetched_now = 0,
     k_InterfaceAddrs = Inr [(True, [10, 0, 0, 2]), (True, [10, 0, 0, 3]), (True, replicate 15 0 @ [1])],
     k_Socket = Inr 5, k_Bind = (\<lambda>_. None), k_SetTimeout = (\<lambda>_. None), k_seqs = of_nat,
     k_answer = (\<lambda>_ _. (None, [Msgs [\<lparr>nm_Seq = 0, nm_is_error = True, nm_Data = [254, 255, 255, 255]\<rparr>,
       \<lparr>nm_Seq = 1, nm_is_error = True, nm_Data = [0, 0, 0, 0]\<rparr>]])),
     k_native = (\<lambda>b. if b = [0, 0, 0, 0] then 0 else - 2), k_timeout = ''timeout''\<rparr>"

lemma example_dsts:
  "candidateDsts [0, 0, 0, 0] V4 [[10, 0, 0, 2], [10, 0, 0, 3], replicate 15 0 @ [1]] = [[10, 0, 0, 2], [10, 0, 0, 3]]"
  by code_simp


text \<open>
  C32. However calls take sockets from the pool and put them back or close them: at most eight are
  kept, no socket is used by two batches at once or lies in the pool while it is used, and every open
  socket is in the pool or in use, so none leaks.
\<close>

theorem socket_pool_sound:
  assumes "pool_step\<^sup>*\<^sup>* \<lparr>po_marker = NewMarker, po_used = {}, po_open = {}\<rparr> p"
  shows "length (mk_sockets (po_marker p)) \<le> 8 \<and> distinct (mk_sockets (po_marker p)) \<and>
    set (mk_sockets (po_marker p)) \<inter> po_used p = {} \<and> po_open p = set (mk_sockets (po_marker p)) \<union> po_used p \<and>
    (\<forall>k s m. getSocket k (po_marker p) = (Inr s, m) \<and> (mk_sockets (po_marker p) = [] \<longrightarrow> s \<notin> po_open p) \<longrightarrow> s \<notin> po_used p)"
proof -
  have "pool_inv \<lparr>po_marker = NewMarker, po_used = {}, po_open = {}\<rparr>"
    by (simp add: pool_inv_def NewMarker_def)
  with assms have "pool_inv p" by (rule pool_steps_inv)
  then show ?thesis
    by (auto simp: pool_inv_def socketPoolSize_def getSocket_def split: list.splits)
qed

theorem socket_pool_sound_witness:
  "\<exists>p. pool_step\<^sup>*\<^sup>* \<lparr>po_marker = NewMarker, po_used = {}, po_open = {}\<rparr> p \<and> po_used p = {5} \<and> po_open p = {5} \<and>
     set (mk_sockets (po_marker p)) \<inter> po_used p = {}"
proof -
  let ?p = "\<lparr>po_marker = NewMarker, po_used = {5}, po_open = {5}\<rparr>"
  have "pool_step \<lparr>po_marker = NewMarker, po_used = {}, po_open = {}\<rparr> ?p"
    using po_get [of example_kernel "\<lparr>po_marker = NewMarker, po_used = {}, po_open = {}\<rparr>" 5 NewMarker]
    by (simp add: getSocket_def newCTSocket_def NewMarker_def example_kernel_def)
  then have r: "pool_step\<^sup>*\<^sup>* \<lparr>po_marker = NewMarker, po_used = {}, po_open = {}\<rparr> ?p" by (rule r_into_rtranclp)
  from socket_pool_sound [OF r] show ?thesis by (intro exI [of _ ?p] conjI r) simp_all
qed

end
