(* ===== verification/Netif.thy ===== *)
theory Netif
  imports Exec
begin

text \<open>
  \<open>internal/netif\<close>: the facts about the host the set-up needs. What the kernel's files hold and
  what \<open>ethtool\<close> prints is arbitrary; the parsing of both is the code's. The speed pattern is
  matched by a function of its own, shown to find a match exactly when the regular expression has
  one.
\<close>

section \<open>queues.go\<close>

text \<open>The number of transmit queues, from the names in the directory.\<close>

definition txQueueCount :: "string list go_result \<Rightarrow> string \<Rightarrow> int go_result" where
  "txQueueCount entries dir =
     (case entries of
        Inl e \<Rightarrow> Inl e
      | Inr names \<Rightarrow>
          let n = length (filter (\<lambda>name. HasPrefix name ''tx-'') names)
          in if n = 0 then Inl (''no TX queues listed in '' @ dir) else Inr (int n))"

text \<open>An interface name is one path element, so \<open>filepath.Join\<close> only puts the slashes in.\<close>

definition TxQueueCount :: "(string \<Rightarrow> string list go_result) \<Rightarrow> string \<Rightarrow> int go_result" where
  "TxQueueCount readDir iface =
     (let dir = ''/sys/class/net/'' @ iface @ ''/queues'' in txQueueCount (readDir dir) dir)"

section \<open>linkspeed.go\<close>

text \<open>\<open>\s\<close> of the pattern.\<close>

definition re_space :: "char \<Rightarrow> bool" where
  "re_space c \<longleftrightarrow> of_char c \<in> {9, 10, 12, 13, 32 :: nat}"

abbreviation newline :: char where "newline \<equiv> CHR 0x0A"

definition strip_prefix :: "string \<Rightarrow> string \<Rightarrow> string option" where
  "strip_prefix p s = (if HasPrefix s p then Some (drop (length p) s) else None)"

text \<open>\<open>\s*Speed:\s*(\d+)Mb/s\s*$\<close> at the start of a text: the group. The last \<open>\s*\<close> may stop before
  any newline it passes, or at the end of the text.\<close>

definition match_speed :: "string \<Rightarrow> string option" where
  "match_speed s =
     (case strip_prefix ''Speed:'' (dropWhile re_space s) of
        None \<Rightarrow> None
      | Some r1 \<Rightarrow>
          let r2 = dropWhile re_space r1; d = takeWhile is_digit r2 in
          if d = [] then None
          else (case strip_prefix ''Mb/s'' (dropWhile is_digit r2) of
                  None \<Rightarrow> None
                | Some r3 \<Rightarrow>
                    if dropWhile re_space r3 = [] \<or> newline \<in> set (takeWhile re_space r3) then Some d else None))"

text \<open>The leftmost match: the first place at the start of a line where the pattern matches.\<close>

fun find_speed :: "bool \<Rightarrow> string \<Rightarrow> string option" where
  "find_speed line_start [] = None"
| "find_speed line_start (c # cs) =
     (case (if line_start then match_speed (c # cs) else None) of
        Some d \<Rightarrow> Some d
      | None \<Rightarrow> find_speed (c = newline) cs)"

definition DetectLinkSpeedMbps :: "string \<Rightarrow> os \<Rightarrow> u64 go_result \<times> os" where
  "DetectLinkSpeedMbps iface os =
     (case os_exec (plain_command ''ethtool'' [iface]) os of (r, os') \<Rightarrow>
        (case cr_error r of
           Some e \<Rightarrow> (Inl (''ethtool '' @ iface @ '': '' @ e @ '': '' @ TrimSpace (cr_combined r)), os')
         | None \<Rightarrow>
             (case find_speed True (cr_combined r) of
                None \<Rightarrow> (Inl (''could not determine link speed of '' @ iface @
                  '' from ethtool output (virtual interfaces often don'' @ [CHR 0x27] @ ''t report one): '' @
                  TrimSpace (cr_combined r)), os')
              | Some d \<Rightarrow>
                  (case ParseUint d 10 64 of
                     None \<Rightarrow> (Inl (''parsing ethtool speed for '' @ iface @ '': strconv.ParseUint: parsing '' @ jq d @
                       '': value out of range''), os')
                   | Some n \<Rightarrow> (Inr (of_nat n), os')))))"

section \<open>route.go\<close>

text \<open>\<open>bufio.Scanner\<close>: the lines up to the first that does not fit its buffer of 65536 bytes, and
  the error then. A line loses one carriage return at its end.\<close>

definition drop_cr :: "string \<Rightarrow> string" where
  "drop_cr l = (if l \<noteq> [] \<and> last l = CHR 0x0D then butlast l else l)"

function scan_lines :: "string \<Rightarrow> string list \<times> err_opt" where
  "scan_lines s =
     (if s = [] then ([], None)
      else let l = takeWhile (\<lambda>c. c \<noteq> newline) s; rest = dropWhile (\<lambda>c. c \<noteq> newline) s in
        if 65536 \<le> length l then ([], Some ''bufio.Scanner: token too long'')
        else case scan_lines (drop 1 rest) of (ls, e) \<Rightarrow> (drop_cr l # ls, e))"
  by pat_completeness auto
termination
proof (relation "measure length")
  fix s l rest :: string
  assume "s \<noteq> []" "rest = dropWhile (\<lambda>c. c \<noteq> newline) s"
  then have "length (drop 1 rest) < length s"
    using length_dropWhile_le [of "\<lambda>c. c \<noteq> newline" s] by (cases s) auto
  then show "(drop 1 rest, s) \<in> measure length" by simp
qed simp

declare scan_lines.simps [simp del]

definition rtfUp :: u32 where "rtfUp = 1"

text \<open>What a line contributes: the interface and metric of a usable default route. Columns are
  numbered from 0: interface 0, destination 1, flags 3, metric 6, mask 7.\<close>

definition route_of_line :: "string \<Rightarrow> (string \<times> u64) option" where
  "route_of_line line =
     (let f = Fields line in
      if length f \<le> 7 \<or> f ! 1 \<noteq> ''00000000'' \<or> f ! 7 \<noteq> ''00000000'' then None
      else case ParseUint (f ! 3) 16 32 of
             None \<Rightarrow> None
           | Some flags \<Rightarrow>
               if of_nat flags AND rtfUp = 0 then None
               else (case ParseUint (f ! 6) 10 64 of
                       None \<Rightarrow> None
                     | Some m \<Rightarrow> Some (f ! 0, of_nat m)))"

fun best_route :: "string list \<Rightarrow> string \<times> u64 \<Rightarrow> string \<times> u64" where
  "best_route [] best = best"
| "best_route (l # ls) (best, bestMetric) =
     (case route_of_line l of
        None \<Rightarrow> best_route ls (best, bestMetric)
      | Some (iface, metric) \<Rightarrow>
          if best = [] \<or> metric < bestMetric then best_route ls (iface, metric)
          else best_route ls (best, bestMetric))"

text \<open>The content, and the error reading it ended with, if any.\<close>

definition defaultRouteInterface :: "string \<Rightarrow> err_opt \<Rightarrow> string go_result" where
  "defaultRouteInterface content read_err =
     (case scan_lines content of (ls, e) \<Rightarrow>
        let best = fst (best_route (drop 1 ls) ([], 0)) in
        case (case e of None \<Rightarrow> read_err | Some e' \<Rightarrow> Some e') of
          Some e' \<Rightarrow> Inl e'
        | None \<Rightarrow> if best = [] then Inl ''no default route found in /proc/net/route'' else Inr best)"

definition DefaultRouteInterface :: "(string \<times> err_opt) go_result \<Rightarrow> string go_result" where
  "DefaultRouteInterface file =
     (case file of Inl e \<Rightarrow> Inl e | Inr (content, read_err) \<Rightarrow> defaultRouteInterface content read_err)"

section \<open>The speed pattern\<close>

text \<open>What the regular expression says of a text that starts at a line, and of the group.\<close>

definition speed_match :: "string \<Rightarrow> string \<Rightarrow> bool" where
  "speed_match s d \<longleftrightarrow> (\<exists>w1 w2 w3 post. s = w1 @ ''Speed:'' @ w2 @ d @ ''Mb/s'' @ w3 @ post \<and>
     list_all re_space w1 \<and> list_all re_space w2 \<and> list_all re_space w3 \<and>
     d \<noteq> [] \<and> list_all is_digit d \<and> (post = [] \<or> hd post = newline))"

lemma dropWhile_all: "list_all P w \<Longrightarrow> r = [] \<or> \<not> P (hd r) \<Longrightarrow> dropWhile P (w @ r) = r \<and> takeWhile P (w @ r) = w"
  by (cases r) (auto simp: list_all_iff dropWhile_append2 takeWhile_append2)

lemma strip_prefix_iff: "strip_prefix p s = Some r \<longleftrightarrow> s = p @ r"
proof
  assume "strip_prefix p s = Some r"
  then have "take (length p) s = p" "drop (length p) s = r"
    by (simp_all add: strip_prefix_def HasPrefix_def split: if_splits)
  then show "s = p @ r" using append_take_drop_id [of "length p" s] by simp
next
  assume "s = p @ r"
  then show "strip_prefix p s = Some r" by (simp add: strip_prefix_def)
qed

lemma takeWhile_all: "list_all P (takeWhile P s)"
  by (auto simp: list_all_iff dest: set_takeWhileD)

lemma line_end_iff:
  "dropWhile re_space r = [] \<or> newline \<in> set (takeWhile re_space r) \<longleftrightarrow>
     (\<exists>w post. r = w @ post \<and> list_all re_space w \<and> (post = [] \<or> hd post = newline))" (is "?l \<longleftrightarrow> ?r")
proof
  assume ?l
  then show ?r
  proof
    assume "dropWhile re_space r = []"
    then have "list_all re_space r" by (simp add: list_all_iff dropWhile_eq_Nil_conv)
    then show ?r by (intro exI [of _ r] exI [of _ "[]"]) simp
  next
    assume "newline \<in> set (takeWhile re_space r)"
    then obtain a b where ab: "takeWhile re_space r = a @ newline # b" by (meson split_list)
    have "list_all re_space (a @ newline # b)" using takeWhile_all [of re_space r] by (simp only: ab)
    moreover have "r = a @ (newline # b @ dropWhile re_space r)"
      using takeWhile_dropWhile_id [of re_space r] by (simp add: ab)
    ultimately show ?r by (intro exI [of _ a] exI [of _ "newline # b @ dropWhile re_space r"]) simp
  qed
next
  assume ?r
  then obtain w post where w: "r = w @ post" "list_all re_space w" "post = [] \<or> hd post = newline" by blast
  have nl: "re_space newline" by code_simp
  show ?l
  proof (cases post)
    case Nil
    with w show ?thesis by (simp add: list_all_iff dropWhile_eq_Nil_conv)
  next
    case (Cons c cs)
    with w nl show ?thesis by (auto simp: list_all_iff takeWhile_append2)
  qed
qed

lemma match_speed_exact: "match_speed s = Some d \<longleftrightarrow> speed_match s d"
proof
  assume m: "match_speed s = Some d"
  define r0 where "r0 = dropWhile re_space s"
  obtain r1 where r1: "r0 = ''Speed:'' @ r1"
    using m by (auto simp: match_speed_def r0_def [symmetric] strip_prefix_iff split: option.splits)
  define r2 where "r2 = dropWhile re_space r1"
  have s1: "strip_prefix ''Speed:'' r0 = Some r1" by (simp add: strip_prefix_iff r1)
  obtain r3 where r3: "dropWhile is_digit r2 = ''Mb/s'' @ r3" "d = takeWhile is_digit r2" "d \<noteq> []"
      "dropWhile re_space r3 = [] \<or> newline \<in> set (takeWhile re_space r3)"
    using m by (auto simp: match_speed_def r0_def [symmetric] s1 r2_def [symmetric] Let_def strip_prefix_iff
        split: option.splits if_splits)
  obtain w3 post where p: "r3 = w3 @ post" "list_all re_space w3" "post = [] \<or> hd post = newline"
    using r3(4) [unfolded line_end_iff] by blast
  define w1 w2 where "w1 = takeWhile re_space s" and "w2 = takeWhile re_space r1"
  have "s = w1 @ r0" "r1 = w2 @ r2" "r2 = d @ ''Mb/s'' @ r3"
    using r3(1,2) takeWhile_dropWhile_id [of is_digit r2] by (simp_all add: r0_def r2_def w1_def w2_def)
  then have "s = w1 @ ''Speed:'' @ w2 @ d @ ''Mb/s'' @ w3 @ post"
    using r1 p(1) by simp
  moreover have "list_all is_digit d" unfolding r3(2) by (rule takeWhile_all)
  ultimately show "speed_match s d"
    unfolding speed_match_def using p r3(3) takeWhile_all [of re_space s, folded w1_def]
      takeWhile_all [of re_space r1, folded w2_def] by blast
next
  assume "speed_match s d"
  then obtain w1 w2 w3 post where s: "s = w1 @ ''Speed:'' @ w2 @ d @ ''Mb/s'' @ w3 @ post"
      "list_all re_space w1" "list_all re_space w2" "list_all re_space w3"
      "d \<noteq> []" "list_all is_digit d" "post = [] \<or> hd post = newline"
    unfolding speed_match_def by blast
  have c: "\<not> re_space CHR ''S''" "\<not> is_digit CHR ''M''" by code_simp+
  have "is_digit x \<longrightarrow> \<not> re_space x" for x by (auto simp: is_digit_def re_space_def)
  with s(5,6) have d: "\<not> re_space (hd (d @ r))" for r by (cases d) auto
  have 1: "dropWhile re_space s = ''Speed:'' @ (w2 @ d @ ''Mb/s'' @ w3 @ post)"
    using dropWhile_all [OF s(2), of "''Speed:'' @ (w2 @ d @ ''Mb/s'' @ w3 @ post)"] c(1) by (simp add: s(1))
  have 2: "dropWhile re_space (w2 @ d @ ''Mb/s'' @ w3 @ post) = d @ ''Mb/s'' @ w3 @ post"
    using dropWhile_all [OF s(3), of "d @ ''Mb/s'' @ w3 @ post"] d by simp
  have 3: "dropWhile is_digit (d @ ''Mb/s'' @ w3 @ post) = ''Mb/s'' @ (w3 @ post)"
      "takeWhile is_digit (d @ ''Mb/s'' @ w3 @ post) = d"
    using dropWhile_all [OF s(6), of "''Mb/s'' @ w3 @ post"] c(2) by simp_all
  have 4: "dropWhile re_space (w3 @ post) = [] \<or> newline \<in> set (takeWhile re_space (w3 @ post))"
    unfolding line_end_iff using s(4,7) by blast
  have sp: "strip_prefix p (p @ r) = Some r" for p r by (simp add: strip_prefix_iff)
  show "match_speed s = Some d"
    unfolding match_speed_def 1 sp option.case Let_def 2 3 using s(5) 4 by simp
qed

text \<open>Where the text before is at the start of a line.\<close>

definition at_line_start :: "bool \<Rightarrow> string \<Rightarrow> bool" where
  "at_line_start line_start pre = (if pre = [] then line_start else last pre = newline)"

definition leftmost_speed :: "bool \<Rightarrow> string \<Rightarrow> string \<Rightarrow> bool" where
  "leftmost_speed line_start s d \<longleftrightarrow> (\<exists>pre rest. s = pre @ rest \<and> at_line_start line_start pre \<and> speed_match rest d \<and>
     (\<forall>pre' rest' d'. s = pre' @ rest' \<and> at_line_start line_start pre' \<and> speed_match rest' d' \<longrightarrow> length pre \<le> length pre'))"

lemma speed_match_functional: "speed_match s d \<Longrightarrow> speed_match s d' \<Longrightarrow> d = d'"
  by (simp add: match_speed_exact [symmetric])

lemma not_speed_match_Nil: "\<not> speed_match [] d"
  by (simp add: speed_match_def)

lemma leftmost_speed_here:
  assumes "b" "speed_match s d0"
  shows "leftmost_speed b s d \<longleftrightarrow> d = d0"
proof
  assume "leftmost_speed b s d"
  then obtain pre rest where p: "s = pre @ rest" "speed_match rest d"
      "\<And>pre' rest' d'. s = pre' @ rest' \<Longrightarrow> at_line_start b pre' \<Longrightarrow> speed_match rest' d' \<Longrightarrow> length pre \<le> length pre'"
    unfolding leftmost_speed_def by blast
  from p(3) [of "[]" s d0] assms have "pre = []" by (simp add: at_line_start_def)
  with p assms(2) speed_match_functional show "d = d0" by simp
next
  assume "d = d0"
  with assms show "leftmost_speed b s d"
    unfolding leftmost_speed_def by (intro exI [of _ "[]"] exI [of _ s]) (simp add: at_line_start_def)
qed

lemma at_line_start_Cons: "at_line_start b (c # pre) = at_line_start (c = newline) pre"
  by (simp add: at_line_start_def)

lemma leftmost_speed_later:
  assumes "\<not> (b \<and> (\<exists>d. speed_match (c # cs) d))"
  shows "leftmost_speed b (c # cs) d \<longleftrightarrow> leftmost_speed (c = newline) cs d"
proof -
  have cut: "(\<exists>pre'. pre = c # pre' \<and> cs = pre' @ rest \<and> at_line_start (c = newline) pre')"
    if "c # cs = pre @ rest" "at_line_start b pre" "speed_match rest e" for pre rest e
    using that assms by (cases pre) (auto simp: at_line_start_Cons at_line_start_def)
  show ?thesis
  proof
    assume "leftmost_speed b (c # cs) d"
    then obtain pre rest where p: "c # cs = pre @ rest" "at_line_start b pre" "speed_match rest d"
        "\<And>pre' rest' d'. c # cs = pre' @ rest' \<Longrightarrow> at_line_start b pre' \<Longrightarrow> speed_match rest' d' \<Longrightarrow> length pre \<le> length pre'"
      unfolding leftmost_speed_def by blast
    from cut [OF p(1,2,3)] obtain pre1 where q: "pre = c # pre1" "cs = pre1 @ rest" "at_line_start (c = newline) pre1" by blast
    have "length pre1 \<le> length pre'" if "cs = pre' @ rest'" "at_line_start (c = newline) pre'" "speed_match rest' d'" for pre' rest' d'
      using p(4) [of "c # pre'" rest' d'] that by (simp add: at_line_start_Cons q)
    with p(3) q show "leftmost_speed (c = newline) cs d" unfolding leftmost_speed_def by blast
  next
    assume "leftmost_speed (c = newline) cs d"
    then obtain pre rest where p: "cs = pre @ rest" "at_line_start (c = newline) pre" "speed_match rest d"
        "\<And>pre' rest' d'. cs = pre' @ rest' \<Longrightarrow> at_line_start (c = newline) pre' \<Longrightarrow> speed_match rest' d' \<Longrightarrow> length pre \<le> length pre'"
      unfolding leftmost_speed_def by blast
    have "length (c # pre) \<le> length pre'" if "c # cs = pre' @ rest'" "at_line_start b pre'" "speed_match rest' d'" for pre' rest' d'
      using cut [OF that] p(4) that(3) by fastforce
    with p show "leftmost_speed b (c # cs) d"
      unfolding leftmost_speed_def by (intro exI [of _ "c # pre"] exI [of _ rest]) (auto simp: at_line_start_Cons)
  qed
qed

lemma find_speed_exact: "find_speed b s = Some d \<longleftrightarrow> leftmost_speed b s d"
proof (induction b s rule: find_speed.induct)
  case (1 b)
  then show ?case by (simp add: leftmost_speed_def not_speed_match_Nil)
next
  case (2 b c cs)
  show ?case
  proof (cases "b \<and> (\<exists>d. speed_match (c # cs) d)")
    case True
    then obtain d0 where d0: "b" "speed_match (c # cs) d0" by blast
    from leftmost_speed_here [OF d0] d0 show ?thesis
      by (auto simp: match_speed_exact [symmetric])
  next
    case False
    then have "(if b then match_speed (c # cs) else None) = None"
      by (auto simp: match_speed_exact [symmetric])
    with 2 leftmost_speed_later [OF False] show ?thesis by simp
  qed
qed

section \<open>The best route\<close>

text \<open>The usable default routes, in order, and the first of lowest metric.\<close>

abbreviation usable_routes :: "string list \<Rightarrow> (string \<times> u64) list" where
  "usable_routes ls \<equiv> List.map_filter route_of_line ls"

lemma Fields_nonempty: "f \<in> set (Fields s) \<Longrightarrow> f \<noteq> []"
proof (induction s rule: Fields.induct)
  case (1 s)
  then show ?case by (cases "dropWhile is_space s") (auto simp: Fields.simps [of s])
qed

lemma route_of_line_iface:
  assumes "route_of_line l = Some (i, m)"
  shows "i \<noteq> []"
proof -
  have "i = Fields l ! 0" "\<not> length (Fields l) \<le> 7"
    using assms by (auto simp: route_of_line_def Let_def split: if_splits option.splits)
  moreover from this(2) have "0 < length (Fields l)" by linarith
  ultimately show ?thesis using Fields_nonempty [of i l] nth_mem [of 0 "Fields l"] by metis
qed

definition first_lowest :: "(string \<times> u64) list \<Rightarrow> string \<times> u64 \<Rightarrow> bool" where
  "first_lowest rs r \<longleftrightarrow> (\<exists>pre post. rs = pre @ r # post \<and>
     (\<forall>x\<in>set pre. snd r < snd x) \<and> (\<forall>x\<in>set post. snd r \<le> snd x))"

lemma first_lowest_better:
  assumes "first_lowest (y # rs) r" "snd y < snd x"
  shows "first_lowest (x # y # rs) r"
proof -
  obtain pre post where p: "y # rs = pre @ r # post" "\<forall>z\<in>set pre. snd r < snd z" "\<forall>z\<in>set post. snd r \<le> snd z"
    using assms(1) unfolding first_lowest_def by blast
  have "snd r \<le> snd y"
  proof (cases pre)
    case (Cons a as)
    with p(1,2) show ?thesis by (auto intro: less_imp_le)
  qed (use p(1) in simp)
  from this assms(2) have "snd r < snd x" by (rule le_less_trans)
  with p show ?thesis unfolding first_lowest_def by (intro exI [of _ "x # pre"] exI [of _ post]) simp
qed

lemma first_lowest_worse:
  assumes "first_lowest (x # rs) r" "snd x \<le> snd y"
  shows "first_lowest (x # y # rs) r"
proof -
  obtain pre post where p: "x # rs = pre @ r # post" "\<forall>z\<in>set pre. snd r < snd z" "\<forall>z\<in>set post. snd r \<le> snd z"
    using assms(1) unfolding first_lowest_def by blast
  show ?thesis
  proof (cases pre)
    case Nil
    with p assms(2) show ?thesis
      unfolding first_lowest_def by (intro exI [of _ "[]"] exI [of _ "y # rs"]) simp
  next
    case (Cons a as)
    with p(1,2) have "snd r < snd x" by simp
    then have "snd r < snd y" using assms(2) by (rule less_le_trans)
    with p Cons show ?thesis
      unfolding first_lowest_def by (intro exI [of _ "x # y # as"] exI [of _ post]) simp
  qed
qed

lemma best_route_first_lowest:
  "b \<noteq> [] \<Longrightarrow> first_lowest ((b, m) # usable_routes ls) (best_route ls (b, m))"
proof (induction ls arbitrary: b m)
  case Nil
  show ?case
    unfolding first_lowest_def
    by (intro exI [of _ "[]"] exI [of _ "[]"]) (simp add: List.map_filter_simps)
next
  case (Cons l ls)
  show ?case
  proof (cases "route_of_line l")
    case None
    with Cons show ?thesis by (simp add: List.map_filter_simps)
  next
    case (Some r)
    obtain i n where r: "r = (i, n)" by (cases r)
    have "i \<noteq> []" using route_of_line_iface Some r by simp
    then show ?thesis
      using Cons Some r first_lowest_better [OF Cons.IH [of i n], of "(b, m)"]
        first_lowest_worse [OF Cons.IH [OF Cons.prems, of m], of "(i, n)"]
      by (auto simp: List.map_filter_simps not_less)
  qed
qed

lemma best_route_none:
  "(usable_routes ls = [] \<longrightarrow> best_route ls ([], m) = ([], m)) \<and>
   (usable_routes ls \<noteq> [] \<longrightarrow> first_lowest (usable_routes ls) (best_route ls ([], m)))"
proof (induction ls)
  case (Cons l ls)
  show ?case
  proof (cases "route_of_line l")
    case None
    with Cons show ?thesis by (simp add: List.map_filter_simps)
  next
    case (Some r)
    obtain i n where r: "r = (i, n)" by (cases r)
    have "i \<noteq> []" using route_of_line_iface Some r by simp
    with Some r best_route_first_lowest [of i n ls] show ?thesis by (simp add: List.map_filter_simps)
  qed
qed (simp add: List.map_filter_simps)

lemma usable_routes_iface: "(i, m) \<in> set (usable_routes ls) \<Longrightarrow> i \<noteq> []"
  by (auto simp: List.map_filter_def dest: route_of_line_iface)

section \<open>Properties\<close>


abbreviation example_route :: string where
  "example_route \<equiv> ''eth0 00000000 0102A8C0 0003 0 0 100 00000000''"

lemma example_route_of_line: "route_of_line example_route = Some (''eth0'', 100)"
proof -
  have "Fields example_route = [''eth0'', ''00000000'', ''0102A8C0'', ''0003'', ''0'', ''0'', ''100'', ''00000000'']"
    by code_simp
  moreover have "ParseUint ''0003'' 16 32 = Some 3" "ParseUint ''100'' 10 64 = Some 100"
    by (simp_all add: ParseUint_def digit_val_def of_char_def)
  ultimately show ?thesis by (simp add: route_of_line_def rtfUp_def)
qed


text \<open>
  C36. The link speed is a number exactly when ethtool succeeds, its output has a match of the regular
  expression, and the digits of the leftmost match's group fit in 64 bits; it is then their value.
\<close>

theorem link_speed_leftmost:
  "fst (DetectLinkSpeedMbps iface os) = Inr n \<longleftrightarrow>
     (\<exists>d k. cr_error (fst (os_exec (plain_command ''ethtool'' [iface]) os)) = None \<and>
       leftmost_speed True (cr_combined (fst (os_exec (plain_command ''ethtool'' [iface]) os))) d \<and>
       ParseUint d 10 64 = Some k \<and> n = of_nat k)"
proof -
  obtain r os' where r: "os_exec (plain_command ''ethtool'' [iface]) os = (r, os')" by fastforce
  show ?thesis
    unfolding find_speed_exact [symmetric]
    by (auto simp: DetectLinkSpeedMbps_def r split: option.splits)
qed

end
