(* ===== verification/Startup.thy ===== *)
theory Startup
  imports Provision Idle_Gc Conntrack Netif Api "HOL-Library.Signed_Division"
begin

text \<open>
  \<open>cmd/xray-speedlimit/main.go\<close>: what \<open>run\<close> builds and in which order. \<open>startup\<close> is \<open>run\<close> up to
  the first listener: the interface, the queues, the layout, the per-user rate, the classes adopted
  from an earlier process, and the webhook handler with the world it works on (the wrapped store
  and the marker). \<open>run\<close> adds the two listeners and the end of the process. The host's files, the
  network and the commands are parameters; log messages and the parsing of the flags are left out.
\<close>

section \<open>Configuration\<close>

record config =
  cf_addr :: string
  cf_webhookAddr :: string
  cf_iface :: string
  cf_txQueues :: int
  cf_defaultClassRateMbit :: u64
  cf_htbBurstMs :: u64
  cf_perUserRateMbit :: u64
  cf_classIdleTimeout :: duration
  cf_remarkAfter :: duration

text \<open>The defaults of the flags.\<close>

definition default_config :: config where
  "default_config =
     \<lparr>cf_addr = '':7070'', cf_webhookAddr = ''@xray-speedlimit-webhook'', cf_iface = [], cf_txQueues = 0,
      cf_defaultClassRateMbit = 0, cf_htbBurstMs = 100, cf_perUserRateMbit = 0,
      cf_classIdleTimeout = 6 * 60 * time_Minute, cf_remarkAfter = 10 * time_Second\<rparr>"

definition fallbackDefaultClassRateMbit :: u64 where
  "fallbackDefaultClassRateMbit = 10000"

text \<open>What opening and reading \<open>/proc/net/route\<close> gives, and the names in a directory.\<close>

record host =
  hs_route :: "(string \<times> err_opt) go_result"
  hs_readDir :: "string \<Rightarrow> string list go_result"

section \<open>The steps of run\<close>

definition resolve_iface :: "host \<Rightarrow> string \<Rightarrow> string go_result" where
  "resolve_iface host iface =
     (if iface = []
      then (case DefaultRouteInterface (hs_route host) of
              Inl e \<Rightarrow> Inl (''determining default route interface for tc shaping: '' @ e)
            | Inr i \<Rightarrow> Inr i)
      else Inr iface)"

definition resolve_queues :: "host \<Rightarrow> string \<Rightarrow> int \<Rightarrow> int go_result" where
  "resolve_queues host iface txQueues =
     (case (if txQueues = 0
            then (case TxQueueCount (hs_readDir host) iface of
                    Inl e \<Rightarrow> Inl (''counting TX queues on '' @ iface @ '' (pass -tx-queues explicitly): '' @ e)
                  | Inr n \<Rightarrow> Inr n)
            else Inr txQueues) of
        Inl e \<Rightarrow> Inl e
      | Inr queues \<Rightarrow>
          if queues < 1 then Inl (''-tx-queues must be at least 1, got '' @ fmt_int queues)
          else if MaxQueues < queues then Inr MaxQueues
          else Inr queues)"

definition default_class_rate :: "string \<Rightarrow> bool \<Rightarrow> u64 \<Rightarrow> os \<Rightarrow> u64 \<times> os" where
  "default_class_rate iface layoutExists defaultClassRateMbit os =
     (if \<not> layoutExists \<and> defaultClassRateMbit = 0
      then (case DetectLinkSpeedMbps iface os of
              (Inl _, os') \<Rightarrow> (fallbackDefaultClassRateMbit, os')
            | (Inr detected, os') \<Rightarrow> (detected, os'))
      else (defaultClassRateMbit, os))"

definition setupShaper :: "string \<Rightarrow> int \<Rightarrow> u64 \<Rightarrow> u64 \<Rightarrow> os \<Rightarrow> Shaper go_result \<times> os" where
  "setupShaper iface queues defaultClassRateMbit htbBurstMs os =
     (let shaper = \<lparr>sh_iface = iface, sh_queues = queues, sh_burstMs = htbBurstMs\<rparr> in
      case LayoutExists shaper os of
        (Inl e, os1) \<Rightarrow> (Inl (''checking existing tc/HTB state on '' @ iface @ '': '' @ e), os1)
      | (Inr layoutExists, os1) \<Rightarrow>
          (case default_class_rate iface layoutExists defaultClassRateMbit os1 of
             (mbit, os2) \<Rightarrow>
               (case EnsureRoot shaper layoutExists mbit os2 of
                  (Some e, os3) \<Rightarrow> (Inl (''setting up tc/HTB on '' @ iface @ '': '' @ e), os3)
                | (None, os3) \<Rightarrow> (Inr shaper, os3))))"

definition bytesPerSecPerMbit :: nat where
  "bytesPerSecPerMbit = 1000000 div 8"

text \<open>\<open>perUserRateBytesPerSec\<close>, 0 if the flag is not set.\<close>

definition per_user_rate :: "u64 \<Rightarrow> u32 go_result" where
  "per_user_rate mbit =
     (if 0 < mbit
      then if of_nat (4294967295 div bytesPerSecPerMbit) < mbit
           then Inl (''per-user-rate-mbit '' @ fmt_d (unat mbit) @
             '' is too large: it must convert to at most 4294967295 bytes/sec (uint32 limit of the mark -> rate store), i.e. at most '' @
             fmt_d (4294967295 div bytesPerSecPerMbit))
           else Inr (ucast (mbit * of_nat bytesPerSecPerMbit))
      else Inr 0)"

text \<open>The loop that adopts the classes found.\<close>

fun adopt :: "u64 \<Rightarrow> u32 \<Rightarrow> Class list \<Rightarrow> memoryStore action" where
  "adopt perUserRateMbit rate [] base = (None, base)"
| "adopt perUserRateMbit rate (c # cs) base =
     (if perUserRateMbit = 0 \<or> cl_RateBytesPerSec c = rate
      then and_then (memoryStore_Set (cl_Mark c) (cl_RateBytesPerSec c)) (\<lambda>e. e) (adopt perUserRateMbit rate cs) base
      else adopt perUserRateMbit rate cs base)"

definition gcInterval :: "duration \<Rightarrow> duration" where
  "gcInterval idle = max (min (idle sdiv 4) (10 * time_Minute)) time_Minute"

section \<open>The running system\<close>

text \<open>What the webhook handler works on: the wrapped store with the commands behind it, and the
  marker.\<close>

type_synonym world = "xstore \<times> Marker"

definition on_store :: "xstore action \<Rightarrow> world action" where
  "on_store a w = (case a (fst w) of (e, x) \<Rightarrow> (e, (x, snd w)))"

text \<open>\<open>sy_perUser\<close> is the \<open>RateSetter\<close> (\<open>None\<close> if nil) by the rate it is used with; \<open>sy_gc\<close> the
  collector and its ticker's period.\<close>

record system =
  sy_shaper :: Shaper
  sy_classes :: "Class list"
  sy_perUser :: "u32 option"
  sy_handler :: "world Handler"
  sy_gc :: "(IdleCollector \<times> duration) option"

definition startup :: "config \<Rightarrow> host \<Rightarrow> os \<Rightarrow> system go_result \<times> os" where
  "startup cfg host os =
     (case resolve_iface host (cf_iface cfg) of Inl e \<Rightarrow> (Inl e, os)
      | Inr iface \<Rightarrow>
     (case resolve_queues host iface (cf_txQueues cfg) of Inl e \<Rightarrow> (Inl e, os)
      | Inr queues \<Rightarrow>
     (case setupShaper iface queues (cf_defaultClassRateMbit cfg) (cf_htbBurstMs cfg) os of
        (Inl e, os1) \<Rightarrow> (Inl e, os1)
      | (Inr shaper, os1) \<Rightarrow>
     (case per_user_rate (cf_perUserRateMbit cfg) of Inl e \<Rightarrow> (Inl e, os1)
      | Inr rate \<Rightarrow>
     (case Classes shaper os1 of
        (Inl e, os2) \<Rightarrow> (Inl (''listing existing tc/HTB classes on '' @ iface @ '': '' @ e), os2)
      | (Inr classes, os2) \<Rightarrow>
     (case adopt (cf_perUserRateMbit cfg) rate classes NewMemoryStore of
        (Some e, base) \<Rightarrow> (Inl e, os2)
      | (None, base) \<Rightarrow>
          (Inr \<lparr>sy_shaper = shaper, sy_classes = classes,
             sy_perUser = (if 0 < cf_perUserRateMbit cfg then Some rate else None),
             sy_handler = NewHandler (NewUsers queues) ((base, os2), NewMarker) (cf_remarkAfter cfg),
             sy_gc = (if 0 < cf_classIdleTimeout cfg
                      then Some (NewIdleCollector (cf_classIdleTimeout cfg), gcInterval (cf_classIdleTimeout cfg))
                      else None)\<rparr>, os2)))))))"

text \<open>The parts a request or a tick reaches: the marker as the handler sees it (\<open>errText\<close> gives an
  error's message), the webhook server, the API server, and one turn of the collector's goroutine.\<close>

definition system_marker :: "(ct_error \<Rightarrow> go_error) \<Rightarrow> kernel \<Rightarrow> world marker" where
  "system_marker errText k proto srcIP srcPort dstIP dstPort mark w =
     (case ct_SetMark k proto srcIP srcPort dstIP dstPort mark (snd w) of
        (e, m, closed) \<Rightarrow> (map_option errText e, (fst w, m)))"

definition system_rate :: "system \<Rightarrow> world rate_get option" where
  "system_rate sy = map_option (\<lambda>_ mark w. store_Get mark (fst w)) (sy_perUser sy)"

definition webhook_ServeHTTP :: "(ct_error \<Rightarrow> go_error) \<Rightarrow> kernel \<Rightarrow> system \<Rightarrow> clock \<Rightarrow> string \<Rightarrow> request \<Rightarrow>
    world Handler \<Rightarrow> (response \<times> world Handler) option" where
  "webhook_ServeHTTP errText k sy ck json_err r h =
     (if rq_path r = [''webhook'', ''xray'']
      then map_option (\<lambda>(out, h'). (respond json_err out, h'))
             (ServeHTTP (system_marker errText k) (system_rate sy) ck (rq_body r) h)
      else Some (http_Error ''404 page not found'' 404, h))"

definition system_api :: "system \<Rightarrow> (Entry list \<Rightarrow> Entry list) \<Rightarrow> (userMark list \<Rightarrow> userMark list) \<Rightarrow> xstore api_server" where
  "system_api sy sortEntries sortUsers =
     \<lparr>as_Set = store_Set (sy_shaper sy), as_Delete = store_Delete (sy_shaper sy), as_List = store_List,
      as_sortEntries = sortEntries, as_sortUsers = sortUsers\<rparr>"

text \<open>Between \<open>Collect\<close> and \<open>Prune\<close> the clock moves from \<open>now\<close> to \<open>now'\<close>.\<close>

definition gc_tick :: "Shaper \<Rightarrow> duration \<Rightarrow> time \<Rightarrow> time \<Rightarrow> IdleCollector \<Rightarrow> world Handler \<Rightarrow>
    delete_calls \<times> IdleCollector \<times> world Handler" where
  "gc_tick shaper idle now now' c h =
     (case Collect (store_Classes shaper) (store_Delete shaper) now c (fst (h_world h)) of
        (calls, c', x) \<Rightarrow>
          (calls, c', h\<lparr>h_world := (x, snd (h_world h)), h_users := Users_Prune now' idle (h_users h)\<rparr>))"

section \<open>Listening and the end of the process\<close>

text \<open>The network: whether a path names a socket (\<open>None\<close> if \<open>Lstat\<close> fails), removing a path, and
  \<open>net.Listen\<close>.\<close>

record 'n net =
  nt_Lstat :: "string \<Rightarrow> 'n \<Rightarrow> bool option"
  nt_Remove :: "string \<Rightarrow> 'n \<Rightarrow> 'n"
  nt_Listen :: "string \<Rightarrow> string \<Rightarrow> 'n action"

text \<open>\<open>len(syscall.RawSockaddrUnix{}.Path)\<close> is 108 on Linux.\<close>

definition resolveUnixSocketPath :: "string \<Rightarrow> string" where
  "resolveUnixSocketPath path =
     (if length path < 2 \<or> path ! 0 \<noteq> CHR ''@'' \<or> path ! 1 \<noteq> CHR ''@'' then path
      else let name = take 108 (drop 1 path) in name @ replicate (108 - length name) (CHR 0x00))"

definition listen :: "'n net \<Rightarrow> string \<Rightarrow> 'n action" where
  "listen net addr n =
     (if addr = [] then (Some ''listen address must not be empty'', n)
      else if addr ! 0 \<noteq> CHR ''/'' \<and> addr ! 0 \<noteq> CHR ''@'' then nt_Listen net ''tcp'' addr n
      else let path = resolveUnixSocketPath addr;
               n' = (if addr ! 0 = CHR ''/'' \<and> nt_Lstat net path n = Some True then nt_Remove net path n else n)
           in nt_Listen net ''unix'' path n')"

text \<open>\<open>serve\<close> starts the server's goroutine once it listens; what that sends on \<open>errCh\<close> depends on
  how \<open>Serve\<close> ends.\<close>

datatype serve_end = ServeNil | ServerClosed | ServeFailed go_error

fun serve_sends :: "serve_end \<Rightarrow> err_opt" where
  "serve_sends ServeNil = None"
| "serve_sends ServerClosed = None"
| "serve_sends (ServeFailed e) = Some e"

definition serve :: "'n net \<Rightarrow> string \<Rightarrow> 'n action" where
  "serve net addr = listen net addr"

text \<open>The \<open>select\<close> wakes up on a signal or on an error of a server.\<close>

datatype wakeup = Interrupted | Reported go_error

fun run_end :: "wakeup \<Rightarrow> err_opt \<Rightarrow> err_opt \<Rightarrow> err_opt" where
  "run_end (Reported e) apiShutdown webhookShutdown = Some e"
| "run_end Interrupted (Some e) webhookShutdown = Some e"
| "run_end Interrupted None webhookShutdown = webhookShutdown"

definition run :: "config \<Rightarrow> host \<Rightarrow> 'n net \<Rightarrow> wakeup \<Rightarrow> err_opt \<Rightarrow> err_opt \<Rightarrow> (os \<times> 'n) action" where
  "run cfg host net wake apiShutdown webhookShutdown s =
     (case startup cfg host (fst s) of
        (Inl e, os) \<Rightarrow> (Some e, (os, snd s))
      | (Inr sy, os) \<Rightarrow>
          and_then (\<lambda>(os, n). case serve net (cf_addr cfg) n of (e, n') \<Rightarrow> (e, (os, n')))
            (\<lambda>e. ''listening on '' @ cf_addr cfg @ '': '' @ e)
          (and_then (\<lambda>(os, n). case serve net (cf_webhookAddr cfg) n of (e, n') \<Rightarrow> (e, (os, n')))
            (\<lambda>e. ''listening for webhook on '' @ cf_webhookAddr cfg @ '': '' @ e)
          (\<lambda>s. (run_end wake apiShutdown webhookShutdown, s))) (os, snd s))"

text \<open>The process's exit status.\<close>

definition main_status :: "err_opt \<Rightarrow> nat" where
  "main_status e = (case e of None \<Rightarrow> 0 | Some _ \<Rightarrow> 1)"

section \<open>Bounds of the configuration\<close>

lemma resolve_queues_bounds: "resolve_queues host iface n = Inr queues \<Longrightarrow> 1 \<le> queues \<and> queues \<le> MaxQueues"
  by (auto simp: resolve_queues_def MaxQueues_def split: sum.splits if_splits)

text \<open>The per-user rate is exact: the flag is refused when its rate does not fit.\<close>

lemma per_user_rate_exact:
  "per_user_rate mbit = Inr rate \<Longrightarrow> unat rate = 125000 * unat mbit"
  "(\<exists>e. per_user_rate mbit = Inl e) \<longleftrightarrow> 4294967295 < 125000 * unat mbit"
proof -
  have c: "0 < mbit \<longleftrightarrow> unat mbit \<noteq> 0" by (simp add: word_less_nat_alt)
  have l: "of_nat (4294967295 div bytesPerSecPerMbit) < mbit \<longleftrightarrow> 34359 < unat mbit"
    by (simp add: bytesPerSecPerMbit_def word_less_nat_alt)
  show "unat rate = 125000 * unat mbit" if "per_user_rate mbit = Inr rate"
  proof (cases "unat mbit = 0")
    case True
    with that c show ?thesis by (simp add: per_user_rate_def)
  next
    case False
    with that c l have u: "unat mbit \<le> 34359" and r: "rate = ucast (mbit * of_nat bytesPerSecPerMbit)"
      by (auto simp: per_user_rate_def split: if_splits)
    have "unat (mbit * of_nat bytesPerSecPerMbit) = 125000 * unat mbit"
      using u by (simp add: unat_word_ariths(2) bytesPerSecPerMbit_def)
    with u show ?thesis by (simp add: r unsigned_ucast_eq take_bit_eq_mod)
  qed
  show "(\<exists>e. per_user_rate mbit = Inl e) \<longleftrightarrow> 4294967295 < 125000 * unat mbit"
    using c l by (auto simp: per_user_rate_def)
qed

lemma gcInterval_bounds:
  "time_Minute \<le> gcInterval idle" "gcInterval idle \<le> 10 * time_Minute"
  "4 * time_Minute \<le> idle \<Longrightarrow> 4 * gcInterval idle \<le> idle"
  by (auto simp: gcInterval_def signed_divide_int_def)

text \<open>Of the rate of the default classes there is no such check: it wraps around.\<close>

lemma default_class_rate_wraps:
  "(18446744073710 :: u64) * 1000000 div 8 = 56048"
  by simp

section \<open>What startup builds\<close>

lemma adopt_None: "\<exists>base'. adopt mbit rate cs base = (None, base')"
  by (induction cs arbitrary: base) (auto simp: and_then_def memoryStore_Set_def)

text \<open>The rates adopted are those of the classes kept; of two classes of a mark, the later.\<close>

lemma adopt_rates:
  "adopt mbit rate cs base = (None, base') \<Longrightarrow> memoryStore_inv base \<Longrightarrow>
     memoryStore_inv base' \<and>
     (memoryStore_Get m base' = Some r \<longrightarrow> memoryStore_Get m base = Some r \<or>
        (\<exists>c\<in>set cs. cl_Mark c = m \<and> cl_RateBytesPerSec c = r \<and> (mbit = 0 \<or> r = rate))) \<and>
     (memoryStore_Get m base' = None \<longrightarrow> memoryStore_Get m base = None \<and>
        (\<forall>c\<in>set cs. cl_Mark c = m \<longrightarrow> mbit \<noteq> 0 \<and> cl_RateBytesPerSec c \<noteq> rate))"
proof (induction cs arbitrary: base)
  case (Cons c cs)
  show ?case
  proof (cases "mbit = 0 \<or> cl_RateBytesPerSec c = rate")
    case True
    obtain b1 where b1: "memoryStore_Set (cl_Mark c) (cl_RateBytesPerSec c) base = (None, b1)"
      by (simp add: memoryStore_Set_def)
    have a: "adopt mbit rate cs b1 = (None, base')" using Cons.prems(1) True b1 by (simp add: and_then_def)
    note view = mem.Set_view [OF Cons.prems(2) b1]
    from Cons.IH [OF a mem.Set_inv [OF Cons.prems(2) b1]] view True show ?thesis
      by (auto split: if_splits)
  next
    case False
    with Cons show ?thesis by auto
  qed
qed simp

lemma Classes_Inr:
  assumes "Classes s os = (Inr cs, os')"
  obtains r where "extends os [(tc_cmd [''-j'', ''-s'', ''class'', ''show'', ''dev'', sh_iface s], r)] os'" "cmd_ok r"
    "parseClasses (cr_stdout r) (sh_queues s) = Inr cs"
  using assms by (auto simp: Classes_def split: prod.splits sum.splits if_splits elim!: runJSON_cases)

lemma setupShaper_Inr:
  assumes "setupShaper iface queues mbit burst os = (Inr s, os')"
  obtains layoutExists os1 mbit' os2 where "s = \<lparr>sh_iface = iface, sh_queues = queues, sh_burstMs = burst\<rparr>"
    "LayoutExists s os = (Inr layoutExists, os1)" "default_class_rate iface layoutExists mbit os1 = (mbit', os2)"
    "EnsureRoot s layoutExists mbit' os2 = (None, os')"
  using assms by (auto simp: setupShaper_def Let_def split: prod.splits sum.splits option.splits)

lemma startup_Inr:
  assumes "startup cfg host os = (Inr sy, os')"
  obtains iface queues rate os1 base where
    "resolve_iface host (cf_iface cfg) = Inr iface" "resolve_queues host iface (cf_txQueues cfg) = Inr queues"
    "setupShaper iface queues (cf_defaultClassRateMbit cfg) (cf_htbBurstMs cfg) os = (Inr (sy_shaper sy), os1)"
    "per_user_rate (cf_perUserRateMbit cfg) = Inr rate" "Classes (sy_shaper sy) os1 = (Inr (sy_classes sy), os')"
    "adopt (cf_perUserRateMbit cfg) rate (sy_classes sy) NewMemoryStore = (None, base)"
    "sy_perUser sy = (if 0 < cf_perUserRateMbit cfg then Some rate else None)"
    "sy_handler sy = NewHandler (NewUsers queues) ((base, os'), NewMarker) (cf_remarkAfter cfg)"
    "sy_gc sy = (if 0 < cf_classIdleTimeout cfg
       then Some (NewIdleCollector (cf_classIdleTimeout cfg), gcInterval (cf_classIdleTimeout cfg)) else None)"
  using assms by (auto simp: startup_def split: sum.splits prod.splits option.splits)

lemma default_class_rate_extends:
  assumes "default_class_rate iface layoutExists mbit os = (mbit', os')"
  shows "\<exists>t. extends os t os' \<and> (layoutExists \<longrightarrow> t = [])"
proof (cases "\<not> layoutExists \<and> mbit = 0")
  case True
  then obtain v where "DetectLinkSpeedMbps iface os = (v, os')"
    using assms by (auto simp: default_class_rate_def split: prod.splits sum.splits)
  then show ?thesis
    using True by (auto simp: DetectLinkSpeedMbps_def split: prod.splits option.splits intro!: exI extends_exec)
next
  case False
  with assms have "os' = os" by (auto simp: default_class_rate_def)
  with ext_refl show ?thesis by blast
qed

lemma LayoutExists_Inr:
  assumes "LayoutExists s os = (Inr b, os')"
  obtains r qs where "extends os [(qdisc_show s, r)] os'" "cmd_ok r" "qdiscs_of r = Some qs"
    "b = layoutMatches qs (sh_queues s)"
proof -
  obtain qs where q: "qdiscs s os = (Inr qs, os')" "b = layoutMatches qs (sh_queues s)"
    using assms by (auto simp: LayoutExists_def split: prod.splits sum.splits)
  from q(1) obtain r where "extends os [(qdisc_show s, r)] os'" "cmd_ok r" "qdiscs_of r = Some qs"
    by (rule qdiscs_Inr)
  with that q(2) show ?thesis by blast
qed

abbreviation class_show :: "Shaper \<Rightarrow> command" where
  "class_show s \<equiv> tc_cmd [''-j'', ''-s'', ''class'', ''show'', ''dev'', sh_iface s]"

text \<open>The commands of a successful start, in order; \<open>t0\<close> is the detection of the link speed.\<close>

lemma startup_trace:
  assumes "startup cfg host os = (Inr sy, os')"
  shows "\<exists>r0 qs t0 mbit t1 t2 r r3.
    extends os ([(qdisc_show (sy_shaper sy), r0)] @ t0 @ t1 @ t2 @ [(nft_restore, r), (class_show (sy_shaper sy), r3)]) os' \<and>
    qdiscs_of r0 = Some qs \<and> layout_done (sy_shaper sy) (layoutMatches qs (sh_queues (sy_shaper sy))) mbit t1 \<and>
    (layoutMatches qs (sh_queues (sy_shaper sy)) \<longrightarrow> t0 = []) \<and>
    steering_done (sy_shaper sy) t2 \<and> cmd_ok r \<and>
    cmd_ok r3 \<and> parseClasses (cr_stdout r3) (sh_queues (sy_shaper sy)) = Inr (sy_classes sy)"
  using assms
proof (cases rule: startup_Inr)
  case (1 iface queues rate os1 base)
  let ?s = "sy_shaper sy"
  obtain b osa mbit osb where a: "LayoutExists ?s os = (Inr b, osa)"
      "default_class_rate iface b (cf_defaultClassRateMbit cfg) osa = (mbit, osb)" "EnsureRoot ?s b mbit osb = (None, os1)"
    by (rule setupShaper_Inr [OF 1(3)])
  obtain r0 qs where l: "extends os [(qdisc_show ?s, r0)] osa" "qdiscs_of r0 = Some qs" "b = layoutMatches qs (sh_queues ?s)"
    by (rule LayoutExists_Inr [OF a(1)])
  obtain t0 where t0: "extends osa t0 osb" "b \<longrightarrow> t0 = []" using default_class_rate_extends [OF a(2)] by blast
  obtain t1 t2 r where e: "extends osb (t1 @ t2 @ [(nft_restore, r)]) os1" "cmd_ok r" "layout_done ?s b mbit t1" "steering_done ?s t2"
    using EnsureRoot_trace [OF a(3)] by blast
  obtain r3 where c: "extends os1 [(class_show ?s, r3)] os'" "cmd_ok r3" "parseClasses (cr_stdout r3) (sh_queues ?s) = Inr (sy_classes sy)"
    by (rule Classes_Inr [OF 1(5)])
  have "extends os ([(qdisc_show ?s, r0)] @ t0 @ (t1 @ t2 @ [(nft_restore, r)]) @ [(class_show ?s, r3)]) os'"
    by (intro extends_trans [OF l(1)] extends_trans [OF t0(1)] extends_trans [OF e(1)] c(1))
  then have "extends os ([(qdisc_show ?s, r0)] @ t0 @ t1 @ t2 @ [(nft_restore, r), (class_show ?s, r3)]) os'" by simp
  with l(2,3) t0(2) e(2-4) c(2,3) show ?thesis by blast
qed

lemma startup_shaper:
  assumes "startup cfg host os = (Inr sy, os')"
  shows "1 \<le> sh_queues (sy_shaper sy) \<and> sh_queues (sy_shaper sy) \<le> MaxQueues \<and>
    us_queues (h_users (sy_handler sy)) = sh_queues (sy_shaper sy)"
  using assms
proof (cases rule: startup_Inr)
  case (1 iface queues rate os1 base)
  have "sh_queues (sy_shaper sy) = queues" by (rule setupShaper_Inr [OF 1(3)]) simp
  with resolve_queues_bounds [OF 1(2)] 1(8) show ?thesis by (simp add: NewHandler_def NewUsers_def)
qed

lemma startup_per_user:
  assumes "startup cfg host os = (Inr sy, os')"
  shows "sy_perUser sy = None \<and> cf_perUserRateMbit cfg = 0 \<or>
    (\<exists>rate. sy_perUser sy = Some rate \<and> cf_perUserRateMbit cfg \<noteq> 0 \<and> unat rate = 125000 * unat (cf_perUserRateMbit cfg))"
  using assms
proof (cases rule: startup_Inr)
  case (1 iface queues rate os1 base)
  have "0 < cf_perUserRateMbit cfg \<longleftrightarrow> cf_perUserRateMbit cfg \<noteq> 0" by (simp add: word_neq_0_conv)
  with per_user_rate_exact(1) [OF 1(4)] 1(7) show ?thesis by auto
qed

section \<open>Properties\<close>


text \<open>A start on eth0 with four queues, where every command succeeds and lists nothing.\<close>

abbreviation example_config :: config where
  "example_config \<equiv> default_config\<lparr>cf_iface := ''eth0'', cf_txQueues := 4, cf_perUserRateMbit := 1, cf_htbBurstMs := 0\<rparr>"

abbreviation example_host :: host where
  "example_host \<equiv> \<lparr>hs_route = Inl ''no such file'', hs_readDir = (\<lambda>_. Inl ''no such file'')\<rparr>"

lemma example_lists:
  "unmarshal_into (dec_slice zero_tcQdisc dec_tcQdisc) [] ''[]'' = Some []"
  "parseClasses ''[]'' 4 = Inr []"
  by code_simp+

lemma run_cmds_answered: "\<forall>t c. cmd_ok (os_reply os t c) \<Longrightarrow> fst (run_cmds cs os)"
  by (induction cs arbitrary: os) (auto simp: os_exec_def Let_def split: prod.splits)

lemma succeeded_None_iff: "fst (succeeded x) \<Longrightarrow> \<exists>s. x = (None, s)"
  by (cases x) (simp add: succeeded_def)

lemma EnsureRoot_answered:
  assumes a: "os_reply os = (\<lambda>_ _. ok_result ''[]'')"
  obtains os' where "EnsureRoot s b mbit os = (None, os')" "os_reply os' = os_reply os"
proof -
  have ok: "\<forall>t c. cmd_ok (os_reply os1 t c)" if "os_reply os1 = os_reply os" for os1
    using that a by simp
  obtain os1 where 1: "(if \<not> b then buildLayout s mbit else (\<lambda>os. (None, os))) os = (None, os1)"
      "os_reply os1 = os_reply os"
  proof (cases b)
    case False
    let ?os = "snd (os_exec (tc_cmd [''qdisc'', ''del'', ''dev'', sh_iface s, ''root'']) os)"
    have "fst (succeeded (buildLayout s mbit os))"
      unfolding buildLayout_runs by (rule run_cmds_answered [OF ok]) simp
    then obtain os1 where "buildLayout s mbit os = (None, os1)" using succeeded_None_iff by blast
    with buildLayout_success [OF this] extends_trace False that show ?thesis by auto
  qed (use that in simp)
  obtain os2 where 2: "qdiscs s os1 = (Inr [], os2)" "os_reply os2 = os_reply os"
    using 1(2) by (simp add: qdiscs_def runJSON_def os_exec_def Let_def a example_lists(1))
  obtain os3 where 3: "tc_run ''tc'' [''qdisc'', ''add'', ''dev'', sh_iface s, ''clsact''] os2 = (None, os3)"
      "os_reply os3 = os_reply os"
    using 2(2) by (simp add: tc_run_def os_exec_def Let_def a)
  obtain os4 where 4: "steer_queues s (queue_range (sh_queues s)) os3 = (None, os4)"
    using succeeded_None_iff [of "steer_queues s (queue_range (sh_queues s)) os3"]
      run_cmds_answered [OF ok [OF 3(2)]] by (auto simp: succeeded_steer_queues)
  obtain t where "extends os3 t os4" by (rule steer_queues_None [OF 4])
  then have r4: "os_reply os4 = os_reply os" using extends_trace 3(2) by simp
  have "ensureSteering s os1 = (None, os4)" using 2(1) 3(1) 4 by (simp add: ensureSteering_def and_then_def)
  moreover obtain os5 where "ensureConnmarkRestore os4 = (None, os5)" "os_reply os5 = os_reply os"
    using r4 by (simp add: ensureConnmarkRestore_def os_exec_def Let_def a)
  ultimately show ?thesis using that 1(1) by (simp add: EnsureRoot_def and_then_def)
qed

lemma example_startup:
  obtains sy os' where "startup example_config example_host (os_always (ok_result ''[]'')) = (Inr sy, os')"
    "sy_shaper sy = eth0_4" "sy_classes sy = []" "sy_perUser sy = Some 125000"
    "sy_handler sy = NewHandler (NewUsers 4) ((NewMemoryStore, os'), NewMarker) (10 * time_Second)"
    "os_reply os' = (\<lambda>_ _. ok_result ''[]'')"
proof -
  let ?os = "os_always (ok_result ''[]'')"
  have a: "os_reply ?os = (\<lambda>_ _. ok_result ''[]'')" by (simp add: os_always_def)
  obtain os1 where 1: "LayoutExists eth0_4 ?os = (Inr False, os1)" "os_reply os1 = (\<lambda>_ _. ok_result ''[]'')"
    by (simp add: LayoutExists_def qdiscs_def runJSON_def os_exec_def Let_def a example_lists(1) layoutMatches_def)
  have speed: "find_speed True ''[]'' = None"
    by (simp add: match_speed_def strip_prefix_def HasPrefix_def re_space_def)
  obtain os2 where 2: "default_class_rate ''eth0'' False 0 os1 = (10000, os2)" "os_reply os2 = (\<lambda>_ _. ok_result ''[]'')"
    using 1(2) speed
    by (simp add: default_class_rate_def DetectLinkSpeedMbps_def os_exec_def Let_def ok_result_def
        fallbackDefaultClassRateMbit_def)
  obtain os3 where 3: "EnsureRoot eth0_4 False 10000 os2 = (None, os3)" "os_reply os3 = (\<lambda>_ _. ok_result ''[]'')"
    using EnsureRoot_answered [OF 2(2)] 2(2) by metis
  obtain os4 where 4: "Classes eth0_4 os3 = (Inr [], os4)" "os_reply os4 = (\<lambda>_ _. ok_result ''[]'')"
    using 3(2) example_lists(2) by (simp add: Classes_def runJSON_def os_exec_def Let_def)
  have s: "setupShaper ''eth0'' 4 0 0 ?os = (Inr eth0_4, os3)"
    using 1(1) 2(1) 3(1) by (simp add: setupShaper_def)
  have q: "resolve_queues example_host ''eth0'' 4 = Inr 4" by (simp add: resolve_queues_def MaxQueues_def)
  have r: "per_user_rate 1 = Inr 125000" by (simp add: per_user_rate_def bytesPerSecPerMbit_def)
  let ?sy = "\<lparr>sy_shaper = eth0_4, sy_classes = [], sy_perUser = Some 125000,
      sy_handler = NewHandler (NewUsers 4) ((NewMemoryStore, os4), NewMarker) (10 * time_Second),
      sy_gc = Some (NewIdleCollector (6 * 60 * time_Minute), gcInterval (6 * 60 * time_Minute))\<rparr>"
  have "startup example_config example_host ?os = (Inr ?sy, os4)"
    using s q r 4(1) by (simp add: startup_def resolve_iface_def default_config_def)
  then show ?thesis by (rule that [OF _ _ _ _ _ 4(2)]) simp_all
qed


text \<open>What \<open>listen\<close> relies on: removing a path leaves the others, and listening removes nothing.\<close>

definition net_ok :: "'n net \<Rightarrow> bool" where
  "net_ok net \<longleftrightarrow>
     (\<forall>p q n. q \<noteq> p \<longrightarrow> nt_Lstat net q (nt_Remove net p n) = nt_Lstat net q n) \<and>
     (\<forall>kind p q n. nt_Lstat net q n \<noteq> None \<longrightarrow> nt_Lstat net q (snd (nt_Listen net kind p n)) = nt_Lstat net q n)"

text \<open>
  C40. \<open>listen\<close> removes nothing but a socket at the very path it is to listen on: every other file is
  still there afterwards, whatever the address; and an address that is not a path removes nothing.
\<close>

theorem listen_keeps_files:
  assumes "net_ok net" "nt_Lstat net q n = Some is_socket"
    and "\<not> is_socket \<or> q \<noteq> addr \<or> addr = [] \<or> addr ! 0 \<noteq> CHR ''/''"
  shows "nt_Lstat net q (snd (listen net addr n)) = Some is_socket"
proof -
  have L: "nt_Lstat net q (snd (nt_Listen net kind p n')) = Some is_socket" if "nt_Lstat net q n' = Some is_socket" for kind p n'
    using assms(1) that by (simp add: net_ok_def)
  have R: "nt_Lstat net q (nt_Remove net p n) = Some is_socket" if "q \<noteq> p" for p
    using assms(1,2) that by (simp add: net_ok_def)
  have path: "resolveUnixSocketPath addr = addr" if "addr ! 0 = CHR ''/''"
    using that by (simp add: resolveUnixSocketPath_def)
  show ?thesis
  proof (cases "addr \<noteq> [] \<and> addr ! 0 = CHR ''/'' \<and> nt_Lstat net addr n = Some True")
    case True
    with assms(2,3) have "q \<noteq> addr" by auto
    with True L [OF R] path show ?thesis by (simp add: listen_def Let_def)
  next
    case False
    with L [OF assms(2)] path assms(2) show ?thesis by (auto simp: listen_def Let_def)
  qed
qed

text \<open>A file system as a map from paths to whether they are sockets.\<close>

abbreviation example_net :: "(string \<rightharpoonup> bool) net" where
  "example_net \<equiv> \<lparr>nt_Lstat = (\<lambda>p n. n p), nt_Remove = (\<lambda>p n. n(p := None)),
     nt_Listen = (\<lambda>kind p n. if kind = ''unix'' \<and> n p = None then (None, n(p \<mapsto> True)) else (Some ''address already in use'', n))\<rparr>"

theorem listen_keeps_files_witness:
  "snd (listen example_net ''/etc/passwd'' [''/etc/passwd'' \<mapsto> False]) ''/etc/passwd'' = Some False"
  using listen_keeps_files [of example_net "''/etc/passwd''" "[''/etc/passwd'' \<mapsto> False]" False "''/etc/passwd''"]
  by (simp add: net_ok_def)

end
