(* ===== verification/System.thy ===== *)
theory System
  imports Startup
begin

text \<open>
  The parts \<open>run\<close> starts, together: webhooks, API requests, the provisioning goroutine and the
  collector's goroutine, on one store, one marker and one table of users. A step is one request, one
  mark provisioned, or one tick; that the calls of a store interleave as if they ran one after the
  other is \<open>Store_Conc\<close>'s, that the queue's operations may interleave is \<open>Provision\<close>'s.
\<close>

section \<open>Steps\<close>

type_synonym live = "world Handler \<times> IdleCollector option"

definition system_start :: "system \<Rightarrow> live" where
  "system_start sy = (sy_handler sy, map_option fst (sy_gc sy))"

inductive system_step :: "(ct_error \<Rightarrow> go_error) \<Rightarrow> system \<Rightarrow> live \<Rightarrow> live \<Rightarrow> bool"
  for errText :: "ct_error \<Rightarrow> go_error" and sy :: system where
  sys_webhook: "webhook_ServeHTTP errText k sy ck json_err r h = Some (resp, h') \<Longrightarrow>
    system_step errText sy (h, c) (h', c)"
| sys_api: "api_ServeHTTP (system_api sy sortEntries sortUsers) json_err (Users_Marks (h_users h)) r (fst (h_world h)) = (resp, x) \<Longrightarrow>
    system_step errText sy (h, c) (h\<lparr>h_world := (x, snd (h_world h))\<rparr>, c)"
| sys_provision: "sy_perUser sy = Some rate \<Longrightarrow> h_provisionQueue h = m # q \<Longrightarrow>
    on_store (store_Set (sy_shaper sy) m rate) (h_world h) = (e, w) \<Longrightarrow>
    system_step errText sy (h, c)
      (h\<lparr>h_provisionQueue := q, h_queued := h_queued h - {m}, h_world := w\<rparr>, c)"
| sys_tick: "gc_tick (sy_shaper sy) (ic_idle c) now now' c h = (calls, c', h') \<Longrightarrow>
    system_step errText sy (h, Some c) (h', Some c')"

section \<open>The invariant\<close>

definition system_inv :: "Shaper \<Rightarrow> (u32 \<rightharpoonup> u32) \<Rightarrow> world Handler \<Rightarrow> bool" where
  "system_inv s v0 h \<longleftrightarrow>
     users_ok (h_users h) \<and> us_queues (h_users h) = sh_queues s \<and>
     memoryStore_inv (fst (fst (h_world h))) \<and> xray.synced s v0 (fst (h_world h)) \<and>
     distinct (h_provisionQueue h) \<and> length (h_provisionQueue h) \<le> provisionQueueSize \<and>
     h_queued h = set (h_provisionQueue h) \<and> list_all (user_mark (sh_queues s)) (h_provisionQueue h)"

lemmas system_inv_simps = system_inv_def xray.synced_def store_Get_def shapedStore_Get_def

lemma queueProvision_queue:
  "h_provisionQueue (queueProvision rateGet m h) =
     (if rateGet m (h_world h) = None \<and> m \<notin> h_queued h \<and> length (h_provisionQueue h) < provisionQueueSize
      then h_provisionQueue h @ [m] else h_provisionQueue h)"
  "h_queued (queueProvision rateGet m h) =
     (if rateGet m (h_world h) = None \<and> m \<notin> h_queued h \<and> length (h_provisionQueue h) < provisionQueueSize
      then insert m (h_queued h) else h_queued h)"
  by (auto simp: queueProvision_def Let_def)

lemma queueProvision_inv:
  "system_inv s v0 h \<Longrightarrow> user_mark (sh_queues s) m \<Longrightarrow> system_inv s v0 (queueProvision rateGet m h)"
  by (auto simp: system_inv_def queueProvision_queue)

text \<open>The marker of conntrack does not touch the store.\<close>

interpretation conn: connection_marker "system_marker errText k" fst for errText k
  by unfold_locales (simp add: system_marker_def split: prod.splits)

lemma system_inv_world: "system_inv s v0 h \<Longrightarrow> fst w = fst (h_world h) \<Longrightarrow> system_inv s v0 (h\<lparr>h_world := w\<rparr>)"
  by (simp add: system_inv_def)

lemma system_inv_recent: "system_inv s v0 (h\<lparr>h_recent := r\<rparr>) = system_inv s v0 h"
  by (simp add: system_inv_def)

lemma webhook_inv:
  assumes inv: "system_inv s v0 h" and q: "1 \<le> sh_queues s" "sh_queues s \<le> MaxQueues"
    and "ServeHTTP (system_marker errText k) rate ck body h = Some (out, h')"
  shows "system_inv s v0 h'"
  using assms(4)
proof (cases rule: ServeHTTP_cases)
  case (event ev src dst email m users)
  have u: "users_ok (h_users h)" "us_queues (h_users h) = sh_queues s" using inv by (simp_all add: system_inv_def)
  have i: "system_inv s v0 (h\<lparr>h_users := users\<rparr>)"
    using inv Users_Mark_ok [OF u(1) event(3)] by (simp add: system_inv_def)
  show ?thesis
  proof (cases "m = 0")
    case True
    with event(4) i show ?thesis by (simp add: mark_connection_def)
  next
    case False
    have "For email (sh_queues s) = Some m"
      by (rule Users_Mark_cases [OF u(1) event(3)]) (use u(2) False in simp_all)
    then have "user_mark (sh_queues s) m" using For_user_mark [OF q, of email] by auto
    with i have "system_inv s v0 (case rate of None \<Rightarrow> h\<lparr>h_users := users\<rparr> | Some g \<Rightarrow> queueProvision g m (h\<lparr>h_users := users\<rparr>))"
      by (simp add: queueProvision_inv split: option.splits)
    moreover obtain w rc where "h' = (case rate of None \<Rightarrow> h\<lparr>h_users := users\<rparr>
        | Some g \<Rightarrow> queueProvision g m (h\<lparr>h_users := users\<rparr>))\<lparr>h_world := w, h_recent := rc\<rparr>" "fst w = fst (h_world (h\<lparr>h_users := users\<rparr>))"
      using conn.mark_connection_effect [OF event(4) False] by blast
    ultimately show ?thesis by (simp add: system_inv_def split: option.splits)
  qed
qed (use inv in simp_all)

lemma system_inv_store:
  assumes "system_inv s v0 h" "memoryStore_inv (fst x)" "xray.synced s v0 x"
  shows "system_inv s v0 (h\<lparr>h_world := (x, mk)\<rparr>)"
  using assms by (simp add: system_inv_def)

lemma store_Set_synced:
  assumes "memoryStore_inv (fst x)" "xray.synced s v0 x" "store_Set s m r x = (e, x')"
  shows "memoryStore_inv (fst x') \<and> xray.synced s v0 x'"
  using xray.Set_synced [OF assms(1,2)] xstore.Set_inv [OF assms(1)] assms(3) by (simp add: store_Set_def)

lemma store_Delete_synced:
  assumes "memoryStore_inv (fst x)" "xray.synced s v0 x" "store_Delete s m x = (e, x')"
  shows "memoryStore_inv (fst x') \<and> xray.synced s v0 x'"
  using xray.Delete_synced [OF assms(1,2)] xstore.Delete_inv [OF assms(1)] assms(3) by (simp add: store_Delete_def)

text \<open>A request to the API is at most one call of the store.\<close>

lemma api_one_call:
  assumes "api_ServeHTTP srv json_err marks r s = (resp, s')"
  obtains (none) "s' = s" | (set) m rate e where "as_Set srv m rate s = (e, s')" | (delete) m e where "as_Delete srv m s = (e, s')"
proof -
  have S: "s' = s \<or> (\<exists>m rate e. as_Set srv m rate s = (e, s'))"
    if "handleSet (as_Set srv) json_err raw body s = (resp, s')" for raw body
    by (rule handleSet_cases [OF that]) blast+
  have D: "s' = s \<or> (\<exists>m e. as_Delete srv m s = (e, s'))" if "handleDelete (as_Delete srv) raw s = (resp, s')" for raw
    by (rule handleDelete_cases [OF that]) blast+
  have "s' = s \<or> (\<exists>m rate e. as_Set srv m rate s = (e, s')) \<or> (\<exists>m e. as_Delete srv m s = (e, s'))"
    using assms unfolding api_ServeHTTP_def Let_def
    by (auto split: list.splits if_splits dest!: S D)
  then show ?thesis using none set delete by blast
qed

lemma api_inv:
  assumes "system_inv (sy_shaper sy) v0 h"
    and "api_ServeHTTP (system_api sy sortEntries sortUsers) json_err marks r (fst (h_world h)) = (resp, x)"
  shows "system_inv (sy_shaper sy) v0 (h\<lparr>h_world := (x, mk)\<rparr>)"
proof -
  have i: "memoryStore_inv (fst (fst (h_world h)))" "xray.synced (sy_shaper sy) v0 (fst (h_world h))"
    using assms(1) by (simp_all add: system_inv_def)
  from assms(2) have "memoryStore_inv (fst x) \<and> xray.synced (sy_shaper sy) v0 x"
  proof (cases rule: api_one_call)
    case (set m rate e)
    with store_Set_synced [OF i] show ?thesis by (simp add: system_api_def)
  next
    case (delete m e)
    with store_Delete_synced [OF i] show ?thesis by (simp add: system_api_def)
  qed (use i in simp)
  with system_inv_store [OF assms(1)] show ?thesis by blast
qed

lemma tick_inv:
  assumes "system_inv s v0 h" "gc_tick s idle now now' c h = (calls, c', h')"
  shows "system_inv s v0 h'"
proof -
  obtain x where x: "Collect (store_Classes s) (store_Delete s) now c (fst (h_world h)) = (calls, c', x)"
      and h': "h' = h\<lparr>h_world := (x, snd (h_world h)), h_users := Users_Prune now' idle (h_users h)\<rparr>"
    using assms(2) by (auto simp: gc_tick_def split: prod.splits)
  have i: "memoryStore_inv (fst (fst (h_world h)))" "xray.synced s v0 (fst (h_world h))" "users_ok (h_users h)"
    using assms(1) by (simp_all add: system_inv_def)
  note eff = stored.Collect_effect [OF i(1) x] in_tc.Collect_effect [OF i(1) x, of v0]
  have "xray.synced s v0 x"
    using i(2) eff unfolding xray.synced_def
    by (auto simp: fun_eq_iff store_Get_def shapedStore_Get_def split: if_splits)
  with system_inv_store [OF assms(1), of x "snd (h_world h)"] eff(1) Users_Prune_ok [OF i(3), of now' idle] show ?thesis
    by (simp add: system_inv_def h')
qed

lemma provision_inv:
  assumes inv: "system_inv s v0 h" and q: "h_provisionQueue h = m # q"
    and st: "on_store (store_Set s m rate) (h_world h) = (e, w)"
  shows "system_inv s v0 (h\<lparr>h_provisionQueue := q, h_queued := h_queued h - {m}, h_world := w\<rparr>)"
proof -
  obtain x where x: "store_Set s m rate (fst (h_world h)) = (e, x)" "w = (x, snd (h_world h))"
    using st by (auto simp: on_store_def split: prod.splits)
  have "memoryStore_inv (fst x) \<and> xray.synced s v0 x"
    by (rule store_Set_synced [OF _ _ x(1)]) (use inv in \<open>simp_all add: system_inv_def\<close>)
  with inv q show ?thesis by (auto simp: system_inv_def x(2))
qed

lemma system_step_inv:
  assumes "system_step errText sy l l'" "1 \<le> sh_queues (sy_shaper sy)" "sh_queues (sy_shaper sy) \<le> MaxQueues"
    and "system_inv (sy_shaper sy) v0 (fst l)"
  shows "system_inv (sy_shaper sy) v0 (fst l')"
  using assms
proof (induction rule: system_step.induct)
  case (sys_webhook k ck json_err r h resp h' c)
  show ?case
  proof (cases "rq_path r = [''webhook'', ''xray'']")
    case True
    then obtain out where "ServeHTTP (system_marker errText k) (system_rate sy) ck (rq_body r) h = Some (out, h')"
      using sys_webhook(1) by (auto simp: webhook_ServeHTTP_def)
    from webhook_inv [OF _ sys_webhook(2,3) this] sys_webhook(4) show ?thesis by simp
  qed (use sys_webhook in \<open>simp add: webhook_ServeHTTP_def\<close>)
next
  case (sys_api sortEntries sortUsers json_err h r resp x c)
  then show ?case using api_inv by simp
next
  case (sys_provision rate h m q e w c)
  then show ?case using provision_inv by simp
next
  case (sys_tick c now now' h calls c' h')
  then show ?case using tick_inv by simp
qed

lemma system_steps_inv:
  assumes "(system_step errText sy)\<^sup>*\<^sup>* l l'" "1 \<le> sh_queues (sy_shaper sy)" "sh_queues (sy_shaper sy) \<le> MaxQueues"
    and "system_inv (sy_shaper sy) v0 (fst l)"
  shows "system_inv (sy_shaper sy) v0 (fst l')"
  using assms(1,4) by (induction rule: rtranclp_induct) (auto intro: system_step_inv [OF _ assms(2,3)])

text \<open>What tc reported at the start is what it enforces.\<close>

definition reported_enforced :: "system \<Rightarrow> (u32 \<rightharpoonup> u32) \<Rightarrow> os \<Rightarrow> bool" where
  "reported_enforced sy v0 os \<longleftrightarrow>
     list_all (\<lambda>c. enforced (sy_shaper sy) v0 os (cl_Mark c) = Some (cl_RateBytesPerSec c)) (sy_classes sy)"

lemma system_start_inv:
  assumes "startup cfg host os = (Inr sy, os')" "reported_enforced sy v0 os'"
  shows "system_inv (sy_shaper sy) v0 (fst (system_start sy))"
  using assms(1)
proof (cases rule: startup_Inr)
  case (1 iface queues rate os1 base)
  note ad = adopt_rates [OF 1(6) NewMemoryStore_inv]
  have "enforced (sy_shaper sy) v0 os' m = Some r" if "memoryStore_Get m base = Some r" for m r
    using ad [where m = m and r = r] that assms(2) by (auto simp: reported_enforced_def list_all_iff)
  then have "xray.synced (sy_shaper sy) v0 (base, os')" by (simp add: xray.synced_def)
  with ad startup_shaper [OF assms(1)] NewUsers_ok [of queues] 1(8) show ?thesis
    by (simp add: system_inv_def system_start_def NewHandler_def)
qed

section \<open>A webhook, then the provisioning goroutine\<close>

lemma webhook_queues:
  assumes inv: "system_inv (sy_shaper sy) v0 h" and q: "1 \<le> sh_queues (sy_shaper sy)" "sh_queues (sy_shaper sy) \<le> MaxQueues"
    and rate: "sy_perUser sy = Some rate" and room: "length (h_provisionQueue h) < provisionQueueSize"
    and ev: "rq_path r = [''webhook'', ''xray'']" "decode_into dec_event zero_event (rq_body r) = Some ev"
      "event_conn ev = Some (src, dst, email)" "email \<noteq> []"
  obtains mark resp h' where "For email (sh_queues (sy_shaper sy)) = Some mark" "user_mark (sh_queues (sy_shaper sy)) mark"
    "webhook_ServeHTTP errText k sy ck json_err r h = Some (resp, h')" "fst (h_world h') = fst (h_world h)"
    "mark \<in> set (h_provisionQueue h') \<or> store_Get mark (fst (h_world h)) \<noteq> None"
    "\<forall>m\<in>set (h_provisionQueue h'). m \<in> set (h_provisionQueue h) \<or> store_Get m (fst (h_world h)) = None"
proof -
  have u: "users_ok (h_users h)" "us_queues (h_users h) = sh_queues (sy_shaper sy)"
      "h_queued h = set (h_provisionQueue h)" using inv by (simp_all add: system_inv_def)
  obtain mark where m: "For email (sh_queues (sy_shaper sy)) = Some mark" "user_mark (sh_queues (sy_shaper sy)) mark" "mark \<noteq> 0"
    by (rule For_user_mark [OF q])
  obtain users where us: "Users_Mark (ck_mark ck) email (h_users h) = Some (mark, users)"
    by (rule Users_Mark_cases [OF u(1) refl]) (use ev(4) m u(2) in auto)
  let ?h = "h\<lparr>h_users := users\<rparr>" and ?g = "\<lambda>m w :: world. store_Get m (fst w)"
  obtain out h' where o: "mark_connection (system_marker errText k) (system_rate sy) ck src dst mark ?h = (out, h')"
    by (metis surj_pair)
  have g: "system_rate sy = Some ?g" by (simp add: system_rate_def rate)
  obtain w rc where h': "h' = (queueProvision ?g mark ?h)\<lparr>h_world := w, h_recent := rc\<rparr>" "fst w = fst (h_world ?h)"
    using conn.mark_connection_effect [OF o m(3)] g by auto
  show ?thesis
  proof (rule that [OF m(1,2)])
    show "webhook_ServeHTTP errText k sy ck json_err r h = Some (respond json_err out, h')"
      by (simp add: webhook_ServeHTTP_def ServeHTTP_def ev us o)
  qed (use h' room u(3) in \<open>auto simp: queueProvision_queue\<close>)
qed

text \<open>The goroutine's steps until the queue is empty.\<close>

lemma system_drain:
  assumes "sy_perUser sy = Some rate"
  shows "(system_step errText sy)\<^sup>*\<^sup>* (h, c)
    (h\<lparr>h_provisionQueue := [], h_queued := h_queued h - set (h_provisionQueue h),
       h_world := (set_all (store_Set (sy_shaper sy)) rate (h_provisionQueue h) (fst (h_world h)), snd (h_world h))\<rparr>, c)"
proof (induction "h_provisionQueue h" arbitrary: h)
  case Nil
  then have "h\<lparr>h_provisionQueue := [], h_queued := h_queued h - set (h_provisionQueue h),
       h_world := (set_all (store_Set (sy_shaper sy)) rate (h_provisionQueue h) (fst (h_world h)), snd (h_world h))\<rparr> = h"
    by (cases h) simp
  then show ?case by simp
next
  case (Cons m q)
  note q = Cons.hyps(2) [symmetric]
  obtain e x where x: "store_Set (sy_shaper sy) m rate (fst (h_world h)) = (e, x)" by (metis surj_pair)
  let ?h = "h\<lparr>h_provisionQueue := q, h_queued := h_queued h - {m}, h_world := (x, snd (h_world h))\<rparr>"
  have "system_step errText sy (h, c) (?h, c)"
    by (rule sys_provision [OF assms q]) (simp add: on_store_def x)
  moreover have "(system_step errText sy)\<^sup>*\<^sup>* (?h, c)
      (?h\<lparr>h_provisionQueue := [], h_queued := h_queued ?h - set (h_provisionQueue ?h),
       h_world := (set_all (store_Set (sy_shaper sy)) rate (h_provisionQueue ?h) (fst (h_world ?h)), snd (h_world ?h))\<rparr>, c)"
    by (rule Cons.hyps(1)) simp
  moreover have "h_queued h - {m} - set q = h_queued h - set (h_provisionQueue h)" by (auto simp: q)
  ultimately show ?case by (simp add: q x converse_rtranclp_into_rtranclp)
qed

lemma store_Set_answered:
  assumes "user_mark (sh_queues s) m" "\<forall>t c. cmd_ok (os_reply (snd x) t c)"
  shows "\<exists>x'. store_Set s m r x = (None, x') \<and> (\<forall>t c. cmd_ok (os_reply (snd x') t c))"
  using assms store_shape_answered [of s "OpSet m r" "snd x"]
  by (cases x) (auto simp: store_shape_def xstore_defs shapedStore_Set_def memoryStore_Set_def)

lemma drained_rates:
  assumes "system_inv (sy_shaper sy) v0 h" "\<forall>t c. cmd_ok (os_reply (snd (fst (h_world h))) t c)"
  shows "store_Get m (set_all (store_Set (sy_shaper sy)) rate (h_provisionQueue h) (fst (h_world h))) =
    (if m \<in> set (h_provisionQueue h) then Some rate else store_Get m (fst (h_world h)))"
proof -
  have i: "memoryStore_inv (fst (fst (h_world h)))" "\<forall>m\<in>set (h_provisionQueue h). user_mark (sh_queues (sy_shaper sy)) m"
    using assms(1) by (simp_all add: system_inv_def list_all_iff)
  show ?thesis
    using xstore.set_all_rates [where good = "\<lambda>x. \<forall>t c. cmd_ok (os_reply (snd x) t c)" and ms = "h_provisionQueue h" and s = "sy_shaper sy" and r = rate, OF i(1) _ assms(2)]
      store_Set_answered i(2) by blast
qed

end
