(* ===== verification/Spec2Isabelle.thy ===== *)
theory Spec2Isabelle
  imports Prelude Mark Go_Strings Go_Json Exec Interfaces Tcshape Shaper_Ops Limiter Shaped_Store
    Store_Conc Idle_Gc Users Recent Go_Netip Go_Http Webhook Provision Api Conntrack Netif Startup System
begin

text \<open>
  A model of xray-speedlimit, a service that limits the bandwidth of the users of an Xray proxy, and
  the theorems that make it correct.

  The program. Xray sends a webhook for every connection of a user. The service computes a 32-bit
  mark from the user's email, sets it on the connection through conntrack, and makes sure that tc has
  an HTB class with the user's rate for that mark. An HTTP API sets, deletes and lists rates; a
  collector deletes the classes that have been idle for long. Rates live in a store that changes
  tc first and itself second; on a restart the classes found in tc are adopted into it.

  Which theory models what (sources are under \<open>src/\<close>; names are those of the code, with a prefix where
  Isabelle or another component has the name already):

  \<^item> \<open>Prelude\<close>: machine integers, error values, actions (a state in, an optional error and a state out),
    Go maps as association lists with distinct keys (their order stands for Go's iteration order, and
    no result may depend on it), times and durations.
  \<^item> \<open>Go_Strings\<close>, \<open>Go_Json\<close>, \<open>Go_Netip\<close>, \<open>Go_Http\<close>, \<open>Exec\<close>: what the code uses of Go's standard library:
    numbers to text and back, \<open>encoding/json\<close> decoding, address parsing, responses, and commands.
    \<open>Exec\<close> has the environment: an arbitrary function from the commands run so far to the next
    result, so a theorem covers whatever tc, nft and ethtool answer.
  \<^item> \<open>Mark\<close>: \<open>internal/mark/mark.go\<close>, on 64- and 32-bit words. \<open>For\<close> always gives a user mark, and
    \<open>Join\<close> and \<open>Split\<close> are inverse.
  \<^item> \<open>Tcshape\<close>, \<open>Shaper_Ops\<close>: \<open>internal/tcshape/tcshape.go\<close>. The first has the texts the Shaper builds
    and what it reads back (layout and steering checks equal to declarative ones), the second its
    operations with every command they run; \<open>enforced\<close> is the limit of each mark after a trace of
    commands, and the abstraction function of the Shaper.
  \<^item> \<open>Interfaces\<close>: the Go interfaces as locales, \<open>limiter.Store\<close> and \<open>tcshape.RateShaper\<close>, with their
    laws and the facts every implementation has.
  \<^item> \<open>Limiter\<close>, \<open>Shaped_Store\<close>: \<open>internal/limiter/memory.go\<close> and \<open>internal/tcshape/store.go\<close>, which
    interpret them: the wrapped store refines a plain map, and never lists a limit that is not
    enforced.
  \<^item> \<open>Store_Conc\<close>: the same store taken apart into atomic steps of any number of goroutines: the mutex
    makes calls serial, cannot deadlock, and is needed.
  \<^item> \<open>Idle_Gc\<close>: \<open>internal/tcshape/gc.go\<close>; which classes a \<open>Collect\<close> deletes, in terms of everything
    earlier calls saw.
  \<^item> \<open>Users\<close>, \<open>Recent\<close>, \<open>Webhook\<close>, \<open>Provision\<close>: \<open>internal/webhook\<close>: the table of users, the recent marks,
    the handler on every branch (over any \<open>Marker\<close>, a locale), and the provisioning queue with its goroutine as interleaved steps.
  \<^item> \<open>Api\<close>: \<open>internal/api/api.go\<close>, over any store.
  \<^item> \<open>Conntrack\<close>: \<open>internal/conntrack\<close>: the requests as trees, the exchange of a batch, \<open>SetMark\<close>, and
    the pool of sockets.
  \<^item> \<open>Netif\<close>: \<open>internal/netif\<close>: the default route, the link speed and the number of queues.
  \<^item> \<open>Startup\<close>: \<open>cmd/xray-speedlimit/main.go\<close>: what \<open>run\<close> builds, in order, and how it listens and ends.
  \<^item> \<open>System\<close>: the parts \<open>run\<close> starts, together, as a step relation, and its invariant.
  \<^item> this theory: the properties of the whole service.

  How state corresponds. Each struct is a record with the struct's fields; a method takes the record
  (and the environment, where it runs commands) and returns it changed. A method that holds a
  mutex for its whole body is one step; \<open>Store_Conc\<close>, \<open>Provision\<close> and \<open>Conntrack\<close> (its pool) have the
  finer steps where the interleaving matters. A Go panic (the division by zero of \<open>For\<close>) is \<open>None\<close>.

  Bounds. The JSON parser of \<open>Go_Json\<close> has fuel, \<open>json_fuel\<close> (twice the length of the text plus one),
  which \<open>json_value_enough_fuel\<close> shows to be enough: more gives the same result. Every other
  loop recurses over a list or on a shrinking text, and what a kernel or a command does next is a
  list or a function, arbitrary but given. A read from netlink
  that times out is an error, so the reads of one batch are finitely many.

  Not modelled. Log messages (but for the deletions a \<open>Collect\<close> counts), the parsing of the flags,
  contexts and deadlines of HTTP servers, the serialisation of netlink messages by the library,
  and what tc, nft, ethtool and the kernel do: they are parameters. The one thing taken from
  tc-htb(8) is \<open>class_effect\<close>, what a command that succeeded does to the classes. The text the JSON
  package gives an error is a parameter as well.
\<close>

section \<open>Properties of the whole service\<close>





end
